theory Spec2Isabelle
  imports Complex_Main
begin

section \<open>Numbers and errors\<close>

text \<open>
  The program computes with Python numbers: \<open>int\<close> (unbounded) and \<open>float\<close>. Both are
  modelled by \<^typ>\<open>real\<close>: integer arithmetic is exact there, and float arithmetic is
  idealised to exact arithmetic (no rounding, no infinities, no NaN), except for
  \<open>update_angle\<close>, which is also modelled with the rounding of doubles written out
  (\<open>update_angle_float\<close> below). The two Python primitives the program applies to
  numbers are written out, in their exact form:
  \<^item> \<open>int(v)\<close> on a number truncates toward zero;
  \<^item> \<open>a % m\<close> is the floored remainder \<open>a - m * floor (a / m)\<close>, which has the sign of
    the divisor \<open>m\<close> (the program only ever divides by the constant 360).
\<close>

definition py_int :: "real \<Rightarrow> int" where
  "py_int v = (if 0 \<le> v then \<lfloor>v\<rfloor> else \<lceil>v\<rceil>)"

definition py_mod :: "real \<Rightarrow> real \<Rightarrow> real" where
  "py_mod a m = a - m * of_int \<lfloor>a / m\<rfloor>"

datatype py_error = IndexError

section \<open>Data model\<close>

text \<open>
  \<open>Coord\<close> (fields \<open>x\<close>, \<open>y\<close>) and \<open>Radius\<close> (fields \<open>value\<close>, \<open>thickness\<close>) are the two
  dataclasses of the source. The fields are prefixed here because \<open>x\<close>, \<open>y\<close> and \<open>r\<close> are
  wanted as variable names and \<open>value\<close> is a keyword.
\<close>

record Coord =
  coord_x :: real
  coord_y :: real

record Radius =
  rvalue :: real
  thickness :: real

text \<open>
  \<open>class Circle\<close>. Every \<open>Circle\<close> object owns its \<open>center\<close> and its two pixel lists, and
  the lists of the program hold distinct objects, so a circle is a value and a method that
  mutates \<open>self\<close> returns the new circle.
\<close>

record Circle =
  is_draw_circles :: bool
  center :: Coord
  angle :: real
  angle_velocity :: real
  circle_r :: Radius
  inner_pixels :: "Coord list"
  pixels :: "Coord list"

section \<open>Circle\<close>

subsection \<open>calc\_pixels\<close>

definition larger_inner :: "Coord \<Rightarrow> real \<Rightarrow> Coord \<Rightarrow> bool" where
  "larger_inner c r_inner p \<longleftrightarrow>
     (coord_x p - coord_x c)\<^sup>2 + (coord_y p - coord_y c)\<^sup>2 > r_inner\<^sup>2"

definition smaller_outer :: "Coord \<Rightarrow> real \<Rightarrow> Coord \<Rightarrow> bool" where
  "smaller_outer c r_outer p \<longleftrightarrow>
     (coord_x p - coord_x c)\<^sup>2 + (coord_y p - coord_y c)\<^sup>2 \<le> r_outer\<^sup>2"

text \<open>The inner \<open>while x <= x_end\<close> loop of \<open>calc_pixels\<close>, for one row \<open>y\<close>.\<close>

function calc_pixels_row ::
  "Coord \<Rightarrow> real \<Rightarrow> real \<Rightarrow> real \<Rightarrow> real \<Rightarrow> real \<Rightarrow> Coord list \<Rightarrow> Coord list" where
  "calc_pixels_row c r_inner r_outer y x x_end ps =
     (if x \<le> x_end then
        calc_pixels_row c r_inner r_outer y (x + 1) x_end
          (if larger_inner c r_inner \<lparr>coord_x = x, coord_y = y\<rparr>
              \<and> smaller_outer c r_outer \<lparr>coord_x = x, coord_y = y\<rparr>
           then ps @ [\<lparr>coord_x = x, coord_y = y\<rparr>] else ps)
      else ps)"
  by pat_completeness auto
termination
proof (relation "measure (\<lambda>(c, r_inner, r_outer, y, x, x_end, ps). nat (\<lfloor>x_end - x\<rfloor> + 1))")
  show "wf (measure (\<lambda>(c, r_inner, r_outer, y, x, x_end, ps). nat (\<lfloor>x_end - x\<rfloor> + 1)))"
    by simp
next
  fix c :: Coord and r_inner r_outer y x x_end :: real and ps :: "Coord list"
  assume le: "x \<le> x_end"
  have "\<lfloor>x_end - (x + 1)\<rfloor> = \<lfloor>x_end - x\<rfloor> - 1"
    by (simp add: algebra_simps) linarith
  moreover have "0 \<le> \<lfloor>x_end - x\<rfloor>"
    using le by simp
  ultimately show
    "((c, r_inner, r_outer, y, x + 1, x_end,
        if larger_inner c r_inner \<lparr>coord_x = x, coord_y = y\<rparr>
              \<and> smaller_outer c r_outer \<lparr>coord_x = x, coord_y = y\<rparr>
        then ps @ [\<lparr>coord_x = x, coord_y = y\<rparr>] else ps),
      (c, r_inner, r_outer, y, x, x_end, ps))
     \<in> measure (\<lambda>(c, r_inner, r_outer, y, x, x_end, ps). nat (\<lfloor>x_end - x\<rfloor> + 1))"
    by simp
qed

text \<open>The outer \<open>while y <= y_end\<close> loop.\<close>

function calc_pixels_rows ::
  "Coord \<Rightarrow> real \<Rightarrow> real \<Rightarrow> real \<Rightarrow> real \<Rightarrow> Coord list \<Rightarrow> Coord list" where
  "calc_pixels_rows c r_inner r_outer y y_end ps =
     (if y \<le> y_end then
        calc_pixels_rows c r_inner r_outer (y + 1) y_end
          (calc_pixels_row c r_inner r_outer y (coord_x c - r_outer) (coord_x c + r_outer) ps)
      else ps)"
  by pat_completeness auto
termination
proof (relation "measure (\<lambda>(c, r_inner, r_outer, y, y_end, ps). nat (\<lfloor>y_end - y\<rfloor> + 1))")
  show "wf (measure (\<lambda>(c, r_inner, r_outer, y, y_end, ps). nat (\<lfloor>y_end - y\<rfloor> + 1)))"
    by simp
next
  fix c :: Coord and r_inner r_outer y y_end :: real and ps :: "Coord list"
  assume le: "y \<le> y_end"
  have "\<lfloor>y_end - (y + 1)\<rfloor> = \<lfloor>y_end - y\<rfloor> - 1"
    by (simp add: algebra_simps) linarith
  moreover have "0 \<le> \<lfloor>y_end - y\<rfloor>"
    using le by simp
  ultimately show
    "((c, r_inner, r_outer, y + 1, y_end,
        calc_pixels_row c r_inner r_outer y (coord_x c - r_outer) (coord_x c + r_outer) ps),
      (c, r_inner, r_outer, y, y_end, ps))
     \<in> measure (\<lambda>(c, r_inner, r_outer, y, y_end, ps). nat (\<lfloor>y_end - y\<rfloor> + 1))"
    by simp
qed

declare calc_pixels_row.simps [simp del] calc_pixels_rows.simps [simp del]

text \<open>\<open>calc_pixels\<close> reads \<open>self.center\<close> and \<open>self.r\<close> only.\<close>

definition calc_pixels :: "Coord \<Rightarrow> Radius \<Rightarrow> Coord list" where
  "calc_pixels c r =
     (let r_inner = rvalue r;
          r_outer = rvalue r + thickness r
      in calc_pixels_rows c r_inner r_outer (coord_y c - r_outer) (coord_y c + r_outer) [])"

subsection \<open>Constructor and methods\<close>

definition Circle_init :: "bool \<Rightarrow> real \<Rightarrow> Radius \<Rightarrow> real \<Rightarrow> Circle" where
  "Circle_init idc a r v =
     (let c0 = \<lparr>coord_x = 0, coord_y = 0\<rparr>;
          ip = (if idc then calc_pixels c0 r else [])
      in \<lparr>is_draw_circles = idc, center = c0, angle = a, angle_velocity = v,
          circle_r = r, inner_pixels = ip, pixels = ip\<rparr>)"

definition set_center :: "Circle \<Rightarrow> Coord \<Rightarrow> Circle" where
  "set_center c p = c\<lparr>center := p\<rparr>"

definition add_angle_velocity :: "Circle \<Rightarrow> Circle \<Rightarrow> Circle" where
  "add_angle_velocity c other_circle =
     c\<lparr>angle_velocity := angle_velocity c + angle_velocity other_circle\<rparr>"

text \<open>
  The \<open>for i in range(len(self.inner_pixels))\<close> loop of \<open>recalc_center\<close>: the clone of
  \<open>inner_pixels[i]\<close>, moved by the new center, is stored at \<open>pixels[i]\<close>. The store raises
  \<open>IndexError\<close> when \<open>pixels\<close> is shorter than \<open>inner_pixels\<close>.
\<close>

definition move_pixel :: "Coord \<Rightarrow> Coord \<Rightarrow> Coord" where
  "move_pixel ctr p = \<lparr>coord_x = coord_x p + coord_x ctr, coord_y = coord_y p + coord_y ctr\<rparr>"

definition store_pixel ::
  "Coord \<Rightarrow> Coord list \<Rightarrow> nat \<Rightarrow> py_error + Coord list \<Rightarrow> py_error + Coord list" where
  "store_pixel ctr ip i acc =
     (case acc of
        Inl e \<Rightarrow> Inl e
      | Inr ps \<Rightarrow> if i < length ps then Inr (ps[i := move_pixel ctr (ip ! i)])
                  else Inl IndexError)"

definition recalc_pixels :: "Coord \<Rightarrow> Coord list \<Rightarrow> Coord list \<Rightarrow> py_error + Coord list" where
  "recalc_pixels ctr ip ps = fold (store_pixel ctr ip) [0..<length ip] (Inr ps)"

definition recalc_center :: "Circle \<Rightarrow> Circle \<Rightarrow> py_error + Circle" where
  "recalc_center c prev_circle =
     (let avg_r = (2 * rvalue (circle_r prev_circle) + thickness (circle_r prev_circle)) / 2;
          ctr = \<lparr>coord_x = of_int (py_int (coord_x (center prev_circle)
                                              + avg_r * cos (angle c / 180 * pi))),
                 coord_y = of_int (py_int (coord_y (center prev_circle)
                                              + avg_r * sin (angle c / 180 * pi)))\<rparr>
      in if is_draw_circles c then
           (case recalc_pixels ctr (inner_pixels c) (pixels c) of
              Inl e \<Rightarrow> Inl e
            | Inr ps \<Rightarrow> Inr (c\<lparr>center := ctr, pixels := ps\<rparr>))
         else Inr (c\<lparr>center := ctr\<rparr>))"

definition get_pixels :: "Circle \<Rightarrow> Coord list" where
  "get_pixels c = pixels c"

definition update_angle :: "Circle \<Rightarrow> Circle" where
  "update_angle c =
     c\<lparr>angle := py_mod ((if angle c \<ge> 0 then 1 else -1) * (angle c + angle_velocity c)) 360\<rparr>"

section \<open>CirclesCollection\<close>

text \<open>
  \<open>class CirclesCollection\<close>. The constructor keeps the caller's list and mutates its
  circles in place; the model returns the collection with the new list. \<open>circles[0]\<close> on
  an empty list raises \<open>IndexError\<close>.
\<close>

record CirclesCollection =
  circles :: "Circle list"
  line_points :: "Coord list"
  cur_point_index :: int
  first_circle_center :: Coord
  scene_width :: int
  scene_height :: int
  brush_line_size :: int
  circles_color :: "int \<times> int \<times> int"
  line_color :: "int \<times> int \<times> int"
  coll_is_draw_circles :: bool

text \<open>\<open>for i in range(1, len(circles)): circles[i].add_angle_velocity(circles[i - 1])\<close>\<close>

definition tie_velocity :: "Circle list \<Rightarrow> Circle list" where
  "tie_velocity cs =
     fold (\<lambda>i cs. cs[i := add_angle_velocity (cs ! i) (cs ! (i - 1))]) [1..<length cs] cs"

definition CirclesCollection_init ::
  "Circle list \<Rightarrow> Coord \<Rightarrow> int \<Rightarrow> int \<Rightarrow> int \<Rightarrow> int \<times> int \<times> int \<Rightarrow> int \<times> int \<times> int \<Rightarrow> bool
     \<Rightarrow> py_error + CirclesCollection" where
  "CirclesCollection_init cs fcc w h brush ccol lcol idc =
     (let temp_circle = set_center (Circle_init idc 0 \<lparr>rvalue = 1, thickness = 1\<rparr> 1) fcc
      in case cs of
           [] \<Rightarrow> Inl IndexError
         | c0 # rest \<Rightarrow>
             (case recalc_center c0 temp_circle of
                Inl e \<Rightarrow> Inl e
              | Inr c0' \<Rightarrow>
                  Inr \<lparr>circles = tie_velocity (c0' # rest),
                       line_points = [\<lparr>coord_x = -10000, coord_y = -10000\<rparr>,
                                      \<lparr>coord_x = -10000, coord_y = -10000\<rparr>],
                       cur_point_index = 0,
                       first_circle_center = fcc,
                       scene_width = w, scene_height = h,
                       brush_line_size = brush,
                       circles_color = ccol, line_color = lcol,
                       coll_is_draw_circles = idc\<rparr>))"

text \<open>
  One iteration of the \<open>while window.is_run()\<close> loop of \<open>run\<close>, without the window and
  the drawing: the two \<open>for\<close> loops over the circles.
\<close>

definition recalc_step :: "nat \<Rightarrow> py_error + Circle list \<Rightarrow> py_error + Circle list" where
  "recalc_step i acc =
     (case acc of
        Inl e \<Rightarrow> Inl e
      | Inr cs \<Rightarrow>
          (case recalc_center (cs ! i) (cs ! (i - 1)) of
             Inl e \<Rightarrow> Inl e
           | Inr c' \<Rightarrow> Inr (cs[i := c'])))"

definition recalc_all :: "Circle list \<Rightarrow> py_error + Circle list" where
  "recalc_all cs = fold recalc_step [1..<length cs] (Inr cs)"

definition run_tick :: "CirclesCollection \<Rightarrow> py_error + CirclesCollection" where
  "run_tick cc =
     (case recalc_all (circles cc) of
        Inl e \<Rightarrow> Inl e
      | Inr cs \<Rightarrow> Inr (cc\<lparr>circles := map update_angle cs\<rparr>))"


section \<open>Auxiliary definitions\<close>

text \<open>
  The invariant of \<open>Circle\<close>: the constructor sets \<open>pixels\<close> to a copy of
  \<open>inner_pixels\<close>, and no method changes the length of either list.
\<close>

definition circle_ok :: "Circle \<Rightarrow> bool" where
  "circle_ok c \<longleftrightarrow> length (pixels c) = length (inner_pixels c)"

text \<open>
  The center that \<open>recalc_center\<close> computes, as a function of what it reads: the center
  and the ring of the previous circle and the angle of the circle itself.
\<close>

definition new_center :: "Coord \<Rightarrow> Radius \<Rightarrow> real \<Rightarrow> Coord" where
  "new_center pc pr a =
     \<lparr>coord_x = of_int (py_int (coord_x pc + (2 * rvalue pr + thickness pr) / 2 * cos (a / 180 * pi))),
      coord_y = of_int (py_int (coord_y pc + (2 * rvalue pr + thickness pr) / 2 * sin (a / 180 * pi)))\<rparr>"

text \<open>
  \<open>n\<close> iterations of the \<open>while\<close> loop of \<open>run\<close>; how many there are is decided by the
  window events, outside the model.
\<close>

fun run_ticks :: "nat \<Rightarrow> CirclesCollection \<Rightarrow> py_error + CirclesCollection" where
  "run_ticks 0 cc = Inr cc"
| "run_ticks (Suc n) cc = (case run_tick cc of Inl e \<Rightarrow> Inl e | Inr cc' \<Rightarrow> run_ticks n cc')"

text \<open>
  The points one run of the inner loop of \<open>calc_pixels\<close> appends, from column \<open>x\<close> on, and
  the points the outer loop appends, from row \<open>y\<close> on.
\<close>

definition row_points :: "Coord \<Rightarrow> real \<Rightarrow> real \<Rightarrow> real \<Rightarrow> real \<Rightarrow> real \<Rightarrow> Coord set" where
  "row_points c r_inner r_outer y x x_end =
     {p. \<exists>k::nat. p = \<lparr>coord_x = x + real k, coord_y = y\<rparr> \<and> x + real k \<le> x_end
           \<and> larger_inner c r_inner p \<and> smaller_outer c r_outer p}"

definition grid_points :: "Coord \<Rightarrow> real \<Rightarrow> real \<Rightarrow> real \<Rightarrow> real \<Rightarrow> Coord set" where
  "grid_points c r_inner r_outer y y_end =
     {p. \<exists>j k::nat. p = \<lparr>coord_x = coord_x c - r_outer + real k, coord_y = y + real j\<rparr>
           \<and> y + real j \<le> y_end \<and> coord_x c - r_outer + real k \<le> coord_x c + r_outer
           \<and> larger_inner c r_inner p \<and> smaller_outer c r_outer p}"

text \<open>
  The mask as the code builds it for a circle at the origin: the points of the grid that
  starts at \<open>(- r_outer, - r_outer)\<close> and has step 1, inside the bounding square and
  inside the band.
\<close>

definition offset_grid_mask :: "real \<Rightarrow> real \<Rightarrow> Coord set" where
  "offset_grid_mask r_inner r_outer =
     {p. (\<exists>j k::nat. p = \<lparr>coord_x = - r_outer + real k, coord_y = - r_outer + real j\<rparr>)
         \<and> \<bar>coord_x p\<bar> \<le> r_outer \<and> \<bar>coord_y p\<bar> \<le> r_outer
         \<and> r_inner\<^sup>2 < (coord_x p)\<^sup>2 + (coord_y p)\<^sup>2
         \<and> (coord_x p)\<^sup>2 + (coord_y p)\<^sup>2 \<le> r_outer\<^sup>2}"

text \<open>
  The mask in the words of the specification: the points with integer coordinates in the
  bounding square of side \<open>2 * r_outer\<close> around the origin whose squared distance from
  the origin is above \<open>r_inner\<^sup>2\<close> and at most \<open>r_outer\<^sup>2\<close>.
\<close>

definition ring_mask_spec :: "real \<Rightarrow> real \<Rightarrow> Coord set" where
  "ring_mask_spec r_inner r_outer =
     {p. coord_x p \<in> \<int> \<and> coord_y p \<in> \<int>
         \<and> \<bar>coord_x p\<bar> \<le> r_outer \<and> \<bar>coord_y p\<bar> \<le> r_outer
         \<and> r_inner\<^sup>2 < (coord_x p)\<^sup>2 + (coord_y p)\<^sup>2
         \<and> (coord_x p)\<^sup>2 + (coord_y p)\<^sup>2 \<le> r_outer\<^sup>2}"

text \<open>
  The angle after an update in the words of the specification, read as a modulo that
  keeps the sign of the angle.
\<close>

definition sign_preserving_mod :: "real \<Rightarrow> real \<Rightarrow> real" where
  "sign_preserving_mod a m = sgn a * py_mod \<bar>a\<bar> m"

section \<open>update\_angle on floats\<close>

text \<open>
  On floats every operation of \<open>update_angle\<close> rounds its exact result to the nearest
  double, ties to the even one. A double has 53 significant bits, so around a number
  \<open>v\<close> with \<open>2\<^sup>e \<le> \<bar>v\<bar> < 2\<^sup>e\<^sup>+\<^sup>1\<close> the doubles are the multiples of \<open>2\<^sup>e\<^sup>-\<^sup>5\<^sup>2\<close>; below
  \<open>2\<^sup>-\<^sup>1\<^sup>0\<^sup>2\<^sup>2\<close> the spacing stays that of the smallest binade. Overflow to infinity is
  not modelled. On integers below \<open>2\<^sup>5\<^sup>3\<close> the rounding changes nothing.
\<close>

definition round_even :: "real \<Rightarrow> int" where
  "round_even y =
     (let f = \<lfloor>y\<rfloor>; d = y - of_int f
      in if d < 1/2 then f else if 1/2 < d then f + 1 else if even f then f else f + 1)"

definition double_ulp :: "real \<Rightarrow> real" where
  "double_ulp v = 2 powr of_int (max \<lfloor>log 2 \<bar>v\<bar>\<rfloor> (-1022) - 52)"

definition double_round :: "real \<Rightarrow> real" where
  "double_round v = (if v = 0 then 0 else double_ulp v * of_int (round_even (v / double_ulp v)))"

text \<open>
  The float \<open>%\<close> of Python: C's \<open>fmod\<close>, which truncates the quotient toward zero and
  is exact, and, when the remainder is not zero and its sign differs from the divisor's,
  the rounded sum of remainder and divisor.
\<close>

definition c_fmod :: "real \<Rightarrow> real \<Rightarrow> real" where
  "c_fmod a m = a - m * of_int (py_int (a / m))"

definition float_rem :: "real \<Rightarrow> real \<Rightarrow> real" where
  "float_rem vx wx =
     (let m = c_fmod vx wx
      in if m \<noteq> 0 then (if (wx < 0) \<noteq> (m < 0) then double_round (m + wx) else m)
         else 0)"

text \<open>
  \<open>update_angle\<close> with the three float operations of its line: the sum, the product
  with the sign and the remainder.
\<close>

definition update_angle_float :: "Circle \<Rightarrow> Circle" where
  "update_angle_float c =
     c\<lparr>angle := float_rem (double_round ((if angle c \<ge> 0 then 1 else -1)
                                * double_round (angle c + angle_velocity c))) 360\<rparr>"

section \<open>Numbers\<close>

lemma py_mod_range: "0 < m \<Longrightarrow> 0 \<le> py_mod a m \<and> py_mod a m < m"
  using floor_divide_lower [of m a] floor_divide_upper [of m a]
  by (simp add: py_mod_def algebra_simps)

lemma py_mod_small: "0 \<le> a \<Longrightarrow> a < m \<Longrightarrow> py_mod a m = a"
proof -
  assume a: "0 \<le> a" "a < m"
  then have "0 \<le> a / m" "a / m < 1" by simp_all
  then have "\<lfloor>a / m\<rfloor> = 0" by linarith
  then show ?thesis by (simp add: py_mod_def)
qed

lemma py_int_trunc: "\<bar>real_of_int (py_int v)\<bar> \<le> \<bar>v\<bar> \<and> \<bar>v - of_int (py_int v)\<bar> < 1"
  unfolding py_int_def by (auto; linarith)

text \<open>
  Without the rounding, the float remainder by a positive divisor is the exact floored
  remainder.
\<close>

lemma float_rem_exact:
  assumes "0 < m"
  shows "(let r = c_fmod a m in if r \<noteq> 0 then (if (m < 0) \<noteq> (r < 0) then r + m else r) else 0)
           = py_mod a m"
proof (cases "0 \<le> a / m")
  case True
  then have "c_fmod a m = py_mod a m"
    by (simp add: c_fmod_def py_mod_def py_int_def)
  moreover have "0 \<le> py_mod a m"
    using py_mod_range [OF assms] by blast
  ultimately show ?thesis using assms by (simp add: Let_def)
next
  case False
  then have neg: "a / m < 0" by simp
  show ?thesis
  proof (cases "a / m \<in> \<int>")
    case True
    then obtain n :: int where n: "a / m = of_int n"
      by (auto elim: Ints_cases)
    then have an: "a = m * of_int n"
      using assms by (simp add: field_simps)
    have "c_fmod a m = 0"
      using neg unfolding c_fmod_def py_int_def n by (simp add: an)
    moreover have "py_mod a m = 0"
      unfolding py_mod_def n by (simp add: an)
    ultimately show ?thesis by (simp add: Let_def)
  next
    case False
    then have "a / m \<noteq> of_int \<lfloor>a / m\<rfloor>"
      by (metis Ints_of_int)
    then have c: "\<lceil>a / m\<rceil> = \<lfloor>a / m\<rfloor> + 1"
      by (simp add: ceiling_altdef)
    then have r: "c_fmod a m = py_mod a m - m"
      using neg by (simp add: c_fmod_def py_mod_def py_int_def algebra_simps)
    have "py_mod a m < m" using py_mod_range [OF assms] by blast
    with r have "c_fmod a m < 0" by simp
    with r assms show ?thesis by (simp add: Let_def)
  qed
qed

section \<open>Rounding to doubles\<close>

lemma round_even_bounds: "\<lfloor>y\<rfloor> \<le> round_even y \<and> round_even y \<le> \<lfloor>y\<rfloor> + 1"
  by (simp add: round_even_def Let_def)

lemma round_even_nonneg: "0 \<le> y \<Longrightarrow> 0 \<le> round_even y"
proof -
  assume "0 \<le> y"
  then have "0 \<le> \<lfloor>y\<rfloor>" by simp
  with round_even_bounds [of y] show ?thesis by linarith
qed

lemma round_even_below: "y < of_int N \<Longrightarrow> round_even y \<le> N"
proof -
  assume "y < of_int N"
  then have "\<lfloor>y\<rfloor> < N" by (simp add: floor_less_iff)
  with round_even_bounds [of y] show ?thesis by linarith
qed

lemma double_ulp_pos: "0 < double_ulp v"
  by (simp add: double_ulp_def)

lemma double_ulp_divides_360:
  assumes "0 < t" and "t < 360"
  shows "\<exists>N::int. 360 = double_ulp t * of_int N"
proof -
  let ?e = "max \<lfloor>log 2 \<bar>t\<bar>\<rfloor> (-1022)"
  have "t < 2 powr 9" using assms(2) by simp
  then have "log 2 t < 9" using assms(1) by (simp add: log_less_iff)
  then have "\<lfloor>log 2 \<bar>t\<bar>\<rfloor> \<le> 8" using assms(1) by (simp add: floor_le_iff)
  then have e: "?e \<le> 8" by simp
  define k where "k = nat (52 - ?e)"
  have k: "int k = 52 - ?e" using e by (simp add: k_def)
  have rk: "real k = of_int (52 - ?e)"
    using k by (metis of_int_of_nat_eq)
  have "(2::real) ^ k = 2 powr real k"
    by (simp add: powr_realpow)
  then have "double_ulp t * 2 ^ k = 2 powr of_int (?e - 52) * 2 powr of_int (52 - ?e)"
    unfolding double_ulp_def rk by simp
  also have "\<dots> = 1"
    by (simp add: powr_add [symmetric])
  finally have "double_ulp t * 2 ^ k = 1" .
  then have "360 = double_ulp t * of_int (360 * 2 ^ k)"
    by (simp add: algebra_simps)
  then show ?thesis by blast
qed

lemma double_round_below_360:
  assumes "0 < t" and "t < 360"
  shows "0 \<le> double_round t \<and> double_round t \<le> 360"
proof -
  let ?q = "double_ulp t"
  have q: "0 < ?q" by (rule double_ulp_pos)
  from double_ulp_divides_360 [OF assms] obtain N :: int where N: "360 = ?q * of_int N"
    by blast
  have "0 \<le> t / ?q" using assms(1) q by simp
  then have lo: "0 \<le> round_even (t / ?q)" by (rule round_even_nonneg)
  have "t / ?q < 360 / ?q" using assms(2) q by (simp add: divide_strict_right_mono)
  also have "360 / ?q = of_int N" using N q by (simp add: field_simps)
  finally have "round_even (t / ?q) \<le> N" by (rule round_even_below)
  then have "?q * of_int (round_even (t / ?q)) \<le> ?q * of_int N"
    using q by simp
  with N have hi: "?q * of_int (round_even (t / ?q)) \<le> 360" by simp
  from lo q have "0 \<le> ?q * of_int (round_even (t / ?q))" by simp
  with hi assms(1) show ?thesis by (simp add: double_round_def)
qed

lemma c_fmod_bounds: "0 < m \<Longrightarrow> - m < c_fmod a m \<and> c_fmod a m < m"
proof -
  assume m: "0 < m"
  have "\<bar>a / m - of_int (py_int (a / m))\<bar> < 1"
    using py_int_trunc [of "a / m"] by blast
  then have "\<bar>m * (a / m - of_int (py_int (a / m)))\<bar> < m"
    using m by (simp add: abs_mult)
  moreover have "m * (a / m - of_int (py_int (a / m))) = c_fmod a m"
    using m by (simp add: c_fmod_def algebra_simps)
  ultimately show ?thesis by (simp add: abs_less_iff)
qed

lemma float_rem_360_range: "0 \<le> float_rem a 360 \<and> float_rem a 360 \<le> 360"
proof -
  let ?m = "c_fmod a 360"
  have b: "- 360 < ?m \<and> ?m < 360"
    using c_fmod_bounds [of 360 a] by simp
  consider "?m = 0" | "0 < ?m" | "?m < 0" by linarith
  then show ?thesis
  proof cases
    case 1
    then show ?thesis by (simp add: float_rem_def)
  next
    case 2
    with b show ?thesis by (simp add: float_rem_def Let_def)
  next
    case 3
    with b have "0 < ?m + 360" "?m + 360 < 360" by simp_all
    then have "0 \<le> double_round (?m + 360) \<and> double_round (?m + 360) \<le> 360"
      by (rule double_round_below_360)
    with 3 show ?thesis by (simp add: float_rem_def Let_def)
  qed
qed

lemma update_angle_float_range:
  "0 \<le> angle (update_angle_float c) \<and> angle (update_angle_float c) \<le> 360"
  using float_rem_360_range by (simp add: update_angle_float_def)

lemma update_angle_float_velocity [simp]:
  "angle_velocity (update_angle_float c) = angle_velocity c"
  by (simp add: update_angle_float_def)

lemma update_angle_float_funpow_velocity [simp]:
  "angle_velocity ((update_angle_float ^^ n) c) = angle_velocity c"
  by (induction n) simp_all

lemma double_ulp_binade:
  assumes "2 powr of_int e \<le> \<bar>v\<bar>" and "\<bar>v\<bar> < 2 powr of_int (e + 1)" and "- 1022 \<le> e"
  shows "double_ulp v = 2 powr of_int (e - 52)"
proof -
  have pos: "0 < \<bar>v\<bar>"
    using assms(1) by (smt (verit) powr_gt_zero)
  have "of_int e \<le> log 2 \<bar>v\<bar>"
    using assms(1) pos by (simp add: le_log_iff)
  moreover have "log 2 \<bar>v\<bar> < of_int (e + 1)"
    using assms(2) pos by (simp add: log_less_iff)
  ultimately have "\<lfloor>log 2 \<bar>v\<bar>\<rfloor> = e"
    by (simp add: floor_eq_iff)
  with assms(3) show ?thesis
    by (simp add: double_ulp_def max_def)
qed

text \<open>
  Two roundings computed: \<open>- 2\<^sup>-\<^sup>7\<^sup>0\<close> is a double, and \<open>360 - 2\<^sup>-\<^sup>7\<^sup>0\<close> lies between the
  doubles \<open>360 - 2\<^sup>-\<^sup>4\<^sup>4\<close> and \<open>360\<close>, nearer to \<open>360\<close>.
\<close>

lemma ulp_small: "double_ulp (- (1 / 2 ^ 70)) = 1 / 2 ^ 122"
proof -
  have "double_ulp (- (1 / 2 ^ 70)) = 2 powr of_int (- 70 - 52)"
    by (rule double_ulp_binade) (simp_all add: powr_minus_divide)
  then show ?thesis by (simp add: powr_minus_divide)
qed

lemma ulp_near_360: "double_ulp (360 - 1 / 2 ^ 70) = 1 / 2 ^ 44"
proof -
  have "double_ulp (360 - 1 / 2 ^ 70) = 2 powr of_int (8 - 52)"
    by (rule double_ulp_binade) (simp_all add: abs_if)
  then show ?thesis by (simp add: powr_minus_divide)
qed

lemma round_small: "double_round (- (1 / 2 ^ 70)) = - (1 / 2 ^ 70)"
  unfolding double_round_def ulp_small by (simp add: round_even_def Let_def)

lemma round_near_360: "double_round (360 - 1 / 2 ^ 70) = 360"
  unfolding double_round_def ulp_near_360 by (simp add: round_even_def Let_def)

lemma fmod_small: "c_fmod (- (1 / 2 ^ 70)) 360 = - (1 / 2 ^ 70)"
proof -
  have "\<lceil>- (1 / 2 ^ 70) / (360::real)\<rceil> = 0"
    by (simp add: ceiling_eq_iff)
  then show ?thesis
    by (simp add: c_fmod_def py_int_def)
qed

lemma float_rem_small: "float_rem (- (1 / 2 ^ 70)) 360 = 360"
proof -
  have "float_rem (- (1 / 2 ^ 70)) 360 = double_round (- (1 / 2 ^ 70) + 360)"
    unfolding float_rem_def fmod_small by (simp add: Let_def)
  also have "- (1 / 2 ^ 70) + 360 = (360::real) - 1 / 2 ^ 70"
    by simp
  finally show ?thesis
    by (simp only: round_near_360)
qed

section \<open>The methods of Circle\<close>

lemma recalc_pixels_upto:
  "n \<le> length ip \<Longrightarrow> length ps = length ip \<Longrightarrow>
   fold (store_pixel ctr ip) [0..<n] (Inr ps)
     = Inr (map (move_pixel ctr) (take n ip) @ drop n ps)"
proof (induction n)
  case 0
  then show ?case by simp
next
  case (Suc n)
  then have n: "n < length ip" "n < length ps" by simp_all
  have len: "length (map (move_pixel ctr) (take n ip)) = n"
    using n by simp
  have "fold (store_pixel ctr ip) [0..<Suc n] (Inr ps)
          = store_pixel ctr ip n (Inr (map (move_pixel ctr) (take n ip) @ drop n ps))"
    using Suc by simp
  also have "\<dots> = Inr ((map (move_pixel ctr) (take n ip) @ drop n ps)[n := move_pixel ctr (ip ! n)])"
    using n by (simp add: store_pixel_def)
  also have "(map (move_pixel ctr) (take n ip) @ drop n ps)[n := move_pixel ctr (ip ! n)]
          = map (move_pixel ctr) (take n ip) @ (drop n ps)[0 := move_pixel ctr (ip ! n)]"
    using len by (simp add: list_update_append)
  also have "(drop n ps)[0 := move_pixel ctr (ip ! n)] = move_pixel ctr (ip ! n) # drop (Suc n) ps"
    using n by (simp add: Cons_nth_drop_Suc [symmetric])
  also have "map (move_pixel ctr) (take n ip) @ move_pixel ctr (ip ! n) # drop (Suc n) ps
          = map (move_pixel ctr) (take (Suc n) ip) @ drop (Suc n) ps"
    using n by (simp add: take_Suc_conv_app_nth)
  finally show ?case .
qed

lemma recalc_pixels_ok:
  "length ps = length ip \<Longrightarrow> recalc_pixels ctr ip ps = Inr (map (move_pixel ctr) ip)"
  using recalc_pixels_upto [of "length ip" ip ps ctr] by (simp add: recalc_pixels_def)

lemma recalc_center_ok:
  "circle_ok c \<Longrightarrow>
   recalc_center c p =
     Inr (c\<lparr>center := new_center (center p) (circle_r p) (angle c),
            pixels := (if is_draw_circles c
                       then map (move_pixel (new_center (center p) (circle_r p) (angle c))) (inner_pixels c)
                       else pixels c)\<rparr>)"
  by (simp add: recalc_center_def circle_ok_def recalc_pixels_ok new_center_def Let_def)

lemma Circle_init_ok: "circle_ok (Circle_init idc a r v)"
  by (simp add: Circle_init_def circle_ok_def Let_def)

lemma recalc_center_keeps:
  assumes "circle_ok c" and "recalc_center c p = Inr c'"
  shows "circle_ok c'" and "angle_velocity c' = angle_velocity c" and "angle c' = angle c"
    and "circle_r c' = circle_r c" and "inner_pixels c' = inner_pixels c"
    and "is_draw_circles c' = is_draw_circles c"
    and "center c' = new_center (center p) (circle_r p) (angle c)"
  using assms by (auto simp: recalc_center_ok circle_ok_def)

lemma recalc_center_returns: "circle_ok c \<Longrightarrow> \<exists>c'. recalc_center c p = Inr c'"
  by (simp add: recalc_center_ok)

lemma update_angle_ok [simp]: "circle_ok (update_angle c) = circle_ok c"
  by (simp add: update_angle_def circle_ok_def)

lemma update_angle_range: "0 \<le> angle (update_angle c) \<and> angle (update_angle c) < 360"
  using py_mod_range [of 360] by (simp add: update_angle_def)

lemma update_angle_velocity [simp]: "angle_velocity (update_angle c) = angle_velocity c"
  by (simp add: update_angle_def)

lemma update_angle_funpow_velocity [simp]:
  "angle_velocity ((update_angle ^^ n) c) = angle_velocity c"
  by (induction n) simp_all

lemma zero_velocity_update:
  "angle_velocity c = 0 \<Longrightarrow> angle (update_angle c) = py_mod \<bar>angle c\<bar> 360"
  by (simp add: update_angle_def abs_if)

lemma update_angle_fixed:
  assumes "angle_velocity c = 0"
  shows "(update_angle ^^ Suc n) c = update_angle c"
proof (induction n)
  case 0
  show ?case by simp
next
  case (Suc n)
  have "(update_angle ^^ Suc (Suc n)) c = update_angle (update_angle c)"
    using Suc by simp
  also have "\<dots> = update_angle c"
    using assms update_angle_range [of c]
    by (simp add: update_angle_def [of "update_angle c"] py_mod_small)
  finally show ?case .
qed

section \<open>The pixel mask\<close>

lemma row_points_done: "\<not> x \<le> x_end \<Longrightarrow> row_points c ri ro y x x_end = {}"
  by (auto simp: row_points_def)

lemma row_points_step:
  assumes "x \<le> x_end"
  shows "row_points c ri ro y x x_end =
           (if larger_inner c ri \<lparr>coord_x = x, coord_y = y\<rparr>
               \<and> smaller_outer c ro \<lparr>coord_x = x, coord_y = y\<rparr>
            then {\<lparr>coord_x = x, coord_y = y\<rparr>} else {})
           \<union> row_points c ri ro y (x + 1) x_end"
    (is "?L = ?H \<union> ?R")
proof (intro set_eqI iffI)
  fix p assume "p \<in> ?L"
  then obtain k :: nat where k: "p = \<lparr>coord_x = x + real k, coord_y = y\<rparr>" "x + real k \<le> x_end"
    "larger_inner c ri p" "smaller_outer c ro p"
    by (auto simp: row_points_def)
  show "p \<in> ?H \<union> ?R"
  proof (cases k)
    case 0
    with k show ?thesis by simp
  next
    case (Suc m)
    with k have "p = \<lparr>coord_x = (x + 1) + real m, coord_y = y\<rparr>" "(x + 1) + real m \<le> x_end"
      by (simp_all add: algebra_simps)
    with k(3,4) have "p \<in> ?R" unfolding row_points_def by blast
    then show ?thesis by simp
  qed
next
  fix p assume "p \<in> ?H \<union> ?R"
  then consider "p \<in> ?H" | "p \<in> ?R" by blast
  then show "p \<in> ?L"
  proof cases
    case 1
    then have "p = \<lparr>coord_x = x + real 0, coord_y = y\<rparr>" "x + real 0 \<le> x_end"
      "larger_inner c ri p" "smaller_outer c ro p"
      using assms by (simp_all split: if_splits)
    then show ?thesis unfolding row_points_def by blast
  next
    case 2
    then obtain m :: nat where m: "p = \<lparr>coord_x = (x + 1) + real m, coord_y = y\<rparr>"
      "(x + 1) + real m \<le> x_end" "larger_inner c ri p" "smaller_outer c ro p"
      by (auto simp: row_points_def)
    then have "p = \<lparr>coord_x = x + real (Suc m), coord_y = y\<rparr>" "x + real (Suc m) \<le> x_end"
      by (simp_all add: algebra_simps)
    with m(3,4) show ?thesis unfolding row_points_def by blast
  qed
qed

lemma set_calc_pixels_row:
  "set (calc_pixels_row c ri ro y x x_end ps) = set ps \<union> row_points c ri ro y x x_end"
proof (induction c ri ro y x x_end ps rule: calc_pixels_row.induct)
  case (1 c ri ro y x x_end ps)
  show ?case
  proof (cases "x \<le> x_end")
    case True
    then show ?thesis
      using "1.IH" [OF True]
      by (subst calc_pixels_row.simps) (auto simp: row_points_step [OF True])
  next
    case False
    then show ?thesis
      by (subst calc_pixels_row.simps) (simp add: row_points_done)
  qed
qed

lemma grid_points_done: "\<not> y \<le> y_end \<Longrightarrow> grid_points c ri ro y y_end = {}"
  by (auto simp: grid_points_def)

lemma grid_points_step:
  assumes "y \<le> y_end"
  shows "grid_points c ri ro y y_end =
           row_points c ri ro y (coord_x c - ro) (coord_x c + ro)
           \<union> grid_points c ri ro (y + 1) y_end"
    (is "?L = ?H \<union> ?R")
proof (intro set_eqI iffI)
  fix p assume "p \<in> ?L"
  then obtain j k :: nat where k: "p = \<lparr>coord_x = coord_x c - ro + real k, coord_y = y + real j\<rparr>"
    "y + real j \<le> y_end" "coord_x c - ro + real k \<le> coord_x c + ro"
    "larger_inner c ri p" "smaller_outer c ro p"
    by (auto simp: grid_points_def)
  show "p \<in> ?H \<union> ?R"
  proof (cases j)
    case 0
    with k have "p = \<lparr>coord_x = coord_x c - ro + real k, coord_y = y\<rparr>" by simp
    with k(3,4,5) have "p \<in> ?H" unfolding row_points_def by blast
    then show ?thesis by simp
  next
    case (Suc m)
    with k have "p = \<lparr>coord_x = coord_x c - ro + real k, coord_y = (y + 1) + real m\<rparr>"
      "(y + 1) + real m \<le> y_end"
      by (simp_all add: algebra_simps)
    with k(3,4,5) have "p \<in> ?R" unfolding grid_points_def by blast
    then show ?thesis by simp
  qed
next
  fix p assume "p \<in> ?H \<union> ?R"
  then consider "p \<in> ?H" | "p \<in> ?R" by blast
  then show "p \<in> ?L"
  proof cases
    case 1
    then obtain k :: nat where "p = \<lparr>coord_x = coord_x c - ro + real k, coord_y = y\<rparr>"
      "coord_x c - ro + real k \<le> coord_x c + ro" "larger_inner c ri p" "smaller_outer c ro p"
      by (auto simp: row_points_def)
    then have "p = \<lparr>coord_x = coord_x c - ro + real k, coord_y = y + real 0\<rparr>"
      "y + real 0 \<le> y_end" "coord_x c - ro + real k \<le> coord_x c + ro"
      "larger_inner c ri p" "smaller_outer c ro p"
      using assms by simp_all
    then show ?thesis unfolding grid_points_def by blast
  next
    case 2
    then obtain m k :: nat where m: "p = \<lparr>coord_x = coord_x c - ro + real k, coord_y = (y + 1) + real m\<rparr>"
      "(y + 1) + real m \<le> y_end" "coord_x c - ro + real k \<le> coord_x c + ro"
      "larger_inner c ri p" "smaller_outer c ro p"
      by (auto simp: grid_points_def)
    then have "p = \<lparr>coord_x = coord_x c - ro + real k, coord_y = y + real (Suc m)\<rparr>"
      "y + real (Suc m) \<le> y_end"
      by (simp_all add: algebra_simps)
    with m(3,4,5) show ?thesis unfolding grid_points_def by blast
  qed
qed

lemma set_calc_pixels_rows:
  "set (calc_pixels_rows c ri ro y y_end ps) = set ps \<union> grid_points c ri ro y y_end"
proof (induction c ri ro y y_end ps rule: calc_pixels_rows.induct)
  case (1 c ri ro y y_end ps)
  show ?case
  proof (cases "y \<le> y_end")
    case True
    then show ?thesis
      using "1.IH" [OF True]
      by (subst calc_pixels_rows.simps)
        (auto simp: grid_points_step [OF True] set_calc_pixels_row)
  next
    case False
    then show ?thesis
      by (subst calc_pixels_rows.simps) (simp add: grid_points_done)
  qed
qed

lemma set_calc_pixels:
  "set (calc_pixels c r) =
     grid_points c (rvalue r) (rvalue r + thickness r)
       (coord_y c - (rvalue r + thickness r)) (coord_y c + (rvalue r + thickness r))"
  by (simp add: calc_pixels_def Let_def set_calc_pixels_rows)

lemma grid_points_origin:
  assumes c: "coord_x c = 0" "coord_y c = 0"
  shows "grid_points c ri ro (coord_y c - ro) (coord_y c + ro) = offset_grid_mask ri ro"
    (is "?G = ?M")
proof (intro set_eqI iffI)
  fix p assume "p \<in> ?G"
  then obtain j k :: nat where p: "p = \<lparr>coord_x = - ro + real k, coord_y = - ro + real j\<rparr>"
    and b: "- ro + real j \<le> ro" "- ro + real k \<le> ro"
      "larger_inner c ri p" "smaller_outer c ro p"
    using c by (auto simp: grid_points_def)
  from p b(1,2) have "\<bar>coord_x p\<bar> \<le> ro" "\<bar>coord_y p\<bar> \<le> ro" by simp_all
  with p b(3,4) c show "p \<in> ?M"
    unfolding offset_grid_mask_def larger_inner_def smaller_outer_def by auto
next
  fix p assume "p \<in> ?M"
  then obtain j k :: nat where p: "p = \<lparr>coord_x = - ro + real k, coord_y = - ro + real j\<rparr>"
    and b: "\<bar>coord_x p\<bar> \<le> ro" "\<bar>coord_y p\<bar> \<le> ro"
      "ri\<^sup>2 < (coord_x p)\<^sup>2 + (coord_y p)\<^sup>2" "(coord_x p)\<^sup>2 + (coord_y p)\<^sup>2 \<le> ro\<^sup>2"
    by (auto simp: offset_grid_mask_def)
  from p b(1,2) c have "coord_y c - ro + real j \<le> coord_y c + ro"
    "coord_x c - ro + real k \<le> coord_x c + ro"
    by simp_all
  moreover from p c
  have "p = \<lparr>coord_x = coord_x c - ro + real k, coord_y = coord_y c - ro + real j\<rparr>"
    by simp
  moreover from b(3,4) c have "larger_inner c ri p" "smaller_outer c ro p"
    by (simp_all add: larger_inner_def smaller_outer_def)
  ultimately show "p \<in> ?G"
    unfolding grid_points_def by blast
qed

lemma offset_grid_mask_Ints:
  assumes "ro \<in> \<int>"
  shows "offset_grid_mask ri ro = ring_mask_spec ri ro"
proof (intro set_eqI iffI)
  fix p assume "p \<in> offset_grid_mask ri ro"
  then obtain j k :: nat where p: "p = \<lparr>coord_x = - ro + real k, coord_y = - ro + real j\<rparr>"
    and b: "\<bar>coord_x p\<bar> \<le> ro" "\<bar>coord_y p\<bar> \<le> ro"
      "ri\<^sup>2 < (coord_x p)\<^sup>2 + (coord_y p)\<^sup>2" "(coord_x p)\<^sup>2 + (coord_y p)\<^sup>2 \<le> ro\<^sup>2"
    by (auto simp: offset_grid_mask_def)
  from assms p have "coord_x p \<in> \<int>" "coord_y p \<in> \<int>" by simp_all
  with b show "p \<in> ring_mask_spec ri ro" by (simp add: ring_mask_spec_def)
next
  fix p assume "p \<in> ring_mask_spec ri ro"
  then have i: "coord_x p \<in> \<int>" "coord_y p \<in> \<int>"
    and b: "\<bar>coord_x p\<bar> \<le> ro" "\<bar>coord_y p\<bar> \<le> ro"
      "ri\<^sup>2 < (coord_x p)\<^sup>2 + (coord_y p)\<^sup>2" "(coord_x p)\<^sup>2 + (coord_y p)\<^sup>2 \<le> ro\<^sup>2"
    by (simp_all add: ring_mask_spec_def)
  from i assms b(1,2) have "coord_x p + ro \<in> \<nat>" "coord_y p + ro \<in> \<nat>"
    by (simp_all add: Nats_altdef2)
  then obtain k j :: nat where "coord_x p + ro = real k" "coord_y p + ro = real j"
    by (auto elim!: Nats_cases)
  then have "p = \<lparr>coord_x = - ro + real k, coord_y = - ro + real j\<rparr>"
    by (simp add: Coord.equality)
  with b show "p \<in> offset_grid_mask ri ro"
    unfolding offset_grid_mask_def by blast
qed

text \<open>
  Two masks computed: ring \<open>(0, 1)\<close>, whose outer radius is an integer, and ring
  \<open>(0, 3/2)\<close>, whose outer radius is not.
\<close>

lemma mask_0_1:
  "calc_pixels \<lparr>coord_x = 0, coord_y = 0\<rparr> \<lparr>rvalue = 0, thickness = 1\<rparr>
     = [\<lparr>coord_x = 0, coord_y = -1\<rparr>, \<lparr>coord_x = -1, coord_y = 0\<rparr>,
        \<lparr>coord_x = 1, coord_y = 0\<rparr>, \<lparr>coord_x = 0, coord_y = 1\<rparr>]"
  by (simp add: calc_pixels_def calc_pixels_rows.simps calc_pixels_row.simps
      larger_inner_def smaller_outer_def)

lemma mask_0_3half:
  "calc_pixels \<lparr>coord_x = 0, coord_y = 0\<rparr> \<lparr>rvalue = 0, thickness = 3/2\<rparr>
     = [\<lparr>coord_x = -1/2, coord_y = -1/2\<rparr>, \<lparr>coord_x = 1/2, coord_y = -1/2\<rparr>,
        \<lparr>coord_x = -1/2, coord_y = 1/2\<rparr>, \<lparr>coord_x = 1/2, coord_y = 1/2\<rparr>]"
  by (simp add: calc_pixels_def calc_pixels_rows.simps calc_pixels_row.simps
      larger_inner_def smaller_outer_def power2_eq_square)

section \<open>The loops over the circles\<close>

lemma tie_velocity_single: "tie_velocity [c] = [c]"
  by (simp add: tie_velocity_def)

lemma upt_from_1_Suc: "0 < n \<Longrightarrow> [1..<Suc n] = [1..<n] @ [n]"
  by simp

lemma recalc_upto:
  assumes "list_all circle_ok cs"
  shows "n \<le> length cs \<Longrightarrow>
     \<exists>mid. fold recalc_step [1..<n] (Inr cs) = Inr mid \<and> length mid = length cs
       \<and> (\<forall>i<length cs. if 1 \<le> i \<and> i < n
             then recalc_center (cs ! i) (mid ! (i - 1)) = Inr (mid ! i)
             else mid ! i = cs ! i)"
proof (induction n)
  case 0
  then show ?case by simp
next
  case (Suc n)
  show ?case
  proof (cases "n = 0")
    case True
    then show ?thesis by simp
  next
    case False
    then have pos: "0 < n" by simp
    from Suc obtain mid where mid: "fold recalc_step [1..<n] (Inr cs) = Inr mid"
      "length mid = length cs"
      "\<forall>i<length cs. if 1 \<le> i \<and> i < n
             then recalc_center (cs ! i) (mid ! (i - 1)) = Inr (mid ! i)
             else mid ! i = cs ! i"
      by auto
    from Suc.prems have n: "n < length cs" by simp
    with mid(3) have midn: "mid ! n = cs ! n" by auto
    from assms n have "circle_ok (cs ! n)" by (simp add: list_all_length)
    then obtain c' where c': "recalc_center (cs ! n) (mid ! (n - 1)) = Inr c'"
      using recalc_center_returns by blast
    have "fold recalc_step [1..<Suc n] (Inr cs) = recalc_step n (Inr mid)"
      using pos mid(1) by (simp only: upt_from_1_Suc fold_append o_apply fold.simps id_apply)
    also have "\<dots> = Inr (mid[n := c'])"
      using c' midn by (simp add: recalc_step_def)
    finally have res: "fold recalc_step [1..<Suc n] (Inr cs) = Inr (mid[n := c'])" .
    have "\<forall>i<length cs. if 1 \<le> i \<and> i < Suc n
             then recalc_center (cs ! i) (mid[n := c'] ! (i - 1)) = Inr (mid[n := c'] ! i)
             else mid[n := c'] ! i = cs ! i"
    proof (intro allI impI)
      fix i assume i: "i < length cs"
      consider "i < n" | "i = n" | "n < i" by linarith
      then show "if 1 \<le> i \<and> i < Suc n
             then recalc_center (cs ! i) (mid[n := c'] ! (i - 1)) = Inr (mid[n := c'] ! i)
             else mid[n := c'] ! i = cs ! i"
      proof cases
        case 1
        then show ?thesis using mid(3) i by (auto simp: nth_list_update)
      next
        case 2
        then show ?thesis using c' pos n mid(2) by (simp add: nth_list_update)
      next
        case 3
        then show ?thesis using mid(3) i by (auto simp: nth_list_update)
      qed
    qed
    with res mid(2) show ?thesis by simp
  qed
qed

lemma recalc_all_ok:
  assumes "list_all circle_ok cs"
  shows "\<exists>mid. recalc_all cs = Inr mid \<and> length mid = length cs
       \<and> (cs \<noteq> [] \<longrightarrow> mid ! 0 = cs ! 0)
       \<and> (\<forall>i<length cs. 1 \<le> i \<longrightarrow> recalc_center (cs ! i) (mid ! (i - 1)) = Inr (mid ! i))"
proof -
  from recalc_upto [OF assms, of "length cs"]
  obtain mid where mid: "fold recalc_step [1..<length cs] (Inr cs) = Inr mid"
      "length mid = length cs"
      "\<forall>i<length cs. if 1 \<le> i \<and> i < length cs
             then recalc_center (cs ! i) (mid ! (i - 1)) = Inr (mid ! i)
             else mid ! i = cs ! i"
    by auto
  have "cs \<noteq> [] \<longrightarrow> mid ! 0 = cs ! 0"
    using mid(3) by auto
  moreover have "\<forall>i<length cs. 1 \<le> i \<longrightarrow> recalc_center (cs ! i) (mid ! (i - 1)) = Inr (mid ! i)"
    using mid(3) by auto
  ultimately show ?thesis
    using mid(1,2) by (simp add: recalc_all_def)
qed

lemma recalc_all_keeps:
  assumes "list_all circle_ok cs" and "recalc_all cs = Inr mid"
  shows "list_all circle_ok mid" and "map angle_velocity mid = map angle_velocity cs"
    and "map angle mid = map angle cs" and "map circle_r mid = map circle_r cs"
proof -
  from recalc_all_ok [OF assms(1)] assms(2)
  have len: "length mid = length cs"
    and z: "cs \<noteq> [] \<longrightarrow> mid ! 0 = cs ! 0"
    and st: "\<forall>i<length cs. 1 \<le> i \<longrightarrow> recalc_center (cs ! i) (mid ! (i - 1)) = Inr (mid ! i)"
    by auto
  have each: "circle_ok (mid ! i) \<and> angle_velocity (mid ! i) = angle_velocity (cs ! i)
               \<and> angle (mid ! i) = angle (cs ! i) \<and> circle_r (mid ! i) = circle_r (cs ! i)"
    if i: "i < length cs" for i
  proof (cases "i = 0")
    case True
    with i z assms(1) show ?thesis by (auto simp: list_all_length)
  next
    case False
    with i st have "recalc_center (cs ! i) (mid ! (i - 1)) = Inr (mid ! i)" by simp
    moreover from i assms(1) have "circle_ok (cs ! i)" by (simp add: list_all_length)
    ultimately show ?thesis using recalc_center_keeps by blast
  qed
  show "list_all circle_ok mid"
    using each len by (simp add: list_all_length)
  show "map angle_velocity mid = map angle_velocity cs"
    using each len by (auto intro: nth_equalityI)
  show "map angle mid = map angle cs"
    using each len by (auto intro: nth_equalityI)
  show "map circle_r mid = map circle_r cs"
    using each len by (auto intro: nth_equalityI)
qed

lemma run_tick_keeps:
  assumes "list_all circle_ok (circles cc)"
  shows "\<exists>cc'. run_tick cc = Inr cc' \<and> list_all circle_ok (circles cc')
          \<and> map angle_velocity (circles cc') = map angle_velocity (circles cc)"
proof -
  from recalc_all_ok [OF assms] obtain mid where mid: "recalc_all (circles cc) = Inr mid"
    by blast
  note k = recalc_all_keeps [OF assms mid]
  have "list_all circle_ok (map update_angle mid)"
    using k(1) by (simp add: list_all_length)
  moreover have "map angle_velocity (map update_angle mid) = map angle_velocity (circles cc)"
    using k(2) by (simp add: comp_def)
  ultimately show ?thesis
    using mid by (simp add: run_tick_def)
qed

lemma run_ticks_keeps:
  "list_all circle_ok (circles cc) \<Longrightarrow>
   \<exists>cc'. run_ticks n cc = Inr cc' \<and> list_all circle_ok (circles cc')
          \<and> map angle_velocity (circles cc') = map angle_velocity (circles cc)"
proof (induction n arbitrary: cc)
  case 0
  then show ?case by simp
next
  case (Suc n)
  from run_tick_keeps [OF Suc.prems] obtain cc1 where
    cc1: "run_tick cc = Inr cc1" "list_all circle_ok (circles cc1)"
      "map angle_velocity (circles cc1) = map angle_velocity (circles cc)"
    by blast
  from Suc.IH [OF cc1(2)] obtain cc' where
    "run_ticks n cc1 = Inr cc'" "list_all circle_ok (circles cc')"
      "map angle_velocity (circles cc') = map angle_velocity (circles cc1)"
    by blast
  with cc1 show ?case by simp
qed

lemma tie_upto:
  "n \<le> length cs \<Longrightarrow>
   length (fold (\<lambda>i cs. cs[i := add_angle_velocity (cs ! i) (cs ! (i - 1))]) [1..<n] cs)
     = length cs
   \<and> (\<forall>i<length cs.
        fold (\<lambda>i cs. cs[i := add_angle_velocity (cs ! i) (cs ! (i - 1))]) [1..<n] cs ! i
          = (if i < n then (cs ! i)\<lparr>angle_velocity := (\<Sum>j\<le>i. angle_velocity (cs ! j))\<rparr>
             else cs ! i))"
proof (induction n)
  case 0
  then show ?case by simp
next
  case (Suc n)
  let ?step = "\<lambda>i cs. cs[i := add_angle_velocity (cs ! i) (cs ! (i - 1))]"
  show ?case
  proof (cases "n = 0")
    case True
    then show ?thesis by simp
  next
    case False
    then obtain m where m: "n = Suc m" by (cases n) auto
    let ?F = "fold ?step [1..<n] cs"
    from Suc have F: "length ?F = length cs"
      "\<forall>i<length cs. ?F ! i
          = (if i < n then (cs ! i)\<lparr>angle_velocity := (\<Sum>j\<le>i. angle_velocity (cs ! j))\<rparr>
             else cs ! i)"
      by auto
    from Suc.prems have n: "n < length cs" by simp
    have Fn: "?F ! n = cs ! n" using F(2) n by simp
    have Fm: "?F ! m = (cs ! m)\<lparr>angle_velocity := (\<Sum>j\<le>m. angle_velocity (cs ! j))\<rparr>"
      using F(2) n m by simp
    have new: "add_angle_velocity (?F ! n) (?F ! (n - 1))
                 = (cs ! n)\<lparr>angle_velocity := (\<Sum>j\<le>n. angle_velocity (cs ! j))\<rparr>"
      using Fn Fm m by (simp add: add_angle_velocity_def add.commute)
    have step: "fold ?step [1..<Suc n] cs = ?F[n := add_angle_velocity (?F ! n) (?F ! (n - 1))]"
      using False by simp
    show ?thesis
      unfolding step new using F n by (auto simp: nth_list_update)
  qed
qed

lemma tie_velocity_sums:
  "length (tie_velocity cs) = length cs
   \<and> (\<forall>i<length cs. tie_velocity cs ! i
         = (cs ! i)\<lparr>angle_velocity := (\<Sum>j\<le>i. angle_velocity (cs ! j))\<rparr>)"
  using tie_upto [of "length cs" cs] by (simp add: tie_velocity_def)

section \<open>Properties\<close>



text \<open>
  Claim C2. One tick of a chain first recomputes the centers for \<open>i = 1, \<dots>, N - 1\<close> in
  index order, giving the list \<open>mid\<close>: circle \<open>i\<close> of \<open>mid\<close> is \<open>recalc_center\<close> of circle
  \<open>i\<close> as it was before the tick (with its angle of before the tick) against circle
  \<open>i - 1\<close> of \<open>mid\<close> (with its center of this tick). Only then is \<open>update_angle\<close> applied
  to every circle of \<open>mid\<close>. So after the tick the center of circle \<open>i \<ge> 1\<close> is computed
  from the center of circle \<open>i - 1\<close> after the tick and the angle of circle \<open>i\<close> before
  the tick, and every angle is the update of the angle before the tick. Circle 0 is not
  recomputed and its center is unchanged.
\<close>

theorem run_tick_order:
  assumes "list_all circle_ok (circles cc)"
  shows "\<exists>mid cc'. recalc_all (circles cc) = Inr mid \<and> run_tick cc = Inr cc'
          \<and> length mid = length (circles cc)
          \<and> (\<forall>i<length (circles cc). 1 \<le> i \<longrightarrow>
                recalc_center (circles cc ! i) (mid ! (i - 1)) = Inr (mid ! i))
          \<and> circles cc' = map update_angle mid
          \<and> (\<forall>i<length (circles cc). 1 \<le> i \<longrightarrow>
                center (circles cc' ! i)
                  = new_center (center (circles cc' ! (i - 1))) (circle_r (circles cc ! (i - 1)))
                      (angle (circles cc ! i)))
          \<and> (\<forall>i<length (circles cc).
                angle (circles cc' ! i) = angle (update_angle (circles cc ! i)))
          \<and> (circles cc \<noteq> [] \<longrightarrow>
                mid ! 0 = circles cc ! 0
              \<and> center (circles cc' ! 0) = center (circles cc ! 0))"
proof -
  let ?cs = "circles cc"
  from recalc_all_ok [OF assms] obtain mid where
    mid: "recalc_all ?cs = Inr mid" "length mid = length ?cs"
      "?cs \<noteq> [] \<longrightarrow> mid ! 0 = ?cs ! 0"
      "\<forall>i<length ?cs. 1 \<le> i \<longrightarrow> recalc_center (?cs ! i) (mid ! (i - 1)) = Inr (mid ! i)"
    by blast
  note k = recalc_all_keeps [OF assms mid(1)]
  have fld: "angle (mid ! i) = angle (?cs ! i) \<and> angle_velocity (mid ! i) = angle_velocity (?cs ! i)
      \<and> circle_r (mid ! i) = circle_r (?cs ! i)" if "i < length ?cs" for i
    using that mid(2) k(2,3,4) by (metis length_map nth_map)
  have ctr: "center (map update_angle mid ! i) = center (mid ! i)" if "i < length ?cs" for i
    using that mid(2) by (simp add: update_angle_def)
  have c: "center (map update_angle mid ! i)
             = new_center (center (map update_angle mid ! (i - 1))) (circle_r (?cs ! (i - 1)))
                 (angle (?cs ! i))"
    if i: "i < length ?cs" "1 \<le> i" for i
  proof -
    from i assms have ok: "circle_ok (?cs ! i)" by (simp add: list_all_length)
    from i mid(4) have "recalc_center (?cs ! i) (mid ! (i - 1)) = Inr (mid ! i)" by simp
    then have "center (mid ! i)
                 = new_center (center (mid ! (i - 1))) (circle_r (mid ! (i - 1))) (angle (?cs ! i))"
      by (rule recalc_center_keeps(7) [OF ok])
    moreover from i have p: "i - 1 < length ?cs" by simp
    ultimately show ?thesis
      using ctr [OF i(1)] ctr [OF p] fld [OF p] by simp
  qed
  have a: "angle (map update_angle mid ! i) = angle (update_angle (?cs ! i))"
    if i: "i < length ?cs" for i
    using fld [OF i] i mid(2) by (simp add: update_angle_def)
  have z: "?cs \<noteq> [] \<longrightarrow> center (map update_angle mid ! 0) = center (?cs ! 0)"
    using mid(2,3) by (auto simp: update_angle_def)
  show ?thesis
    using mid c a z by (simp add: run_tick_def)
qed

theorem run_tick_order_witness:
  "list_all circle_ok
     (circles \<lparr>circles = [Circle_init False 0 \<lparr>rvalue = 10, thickness = 2\<rparr> 0,
                          Circle_init False 90 \<lparr>rvalue = 5, thickness = 1\<rparr> 10],
               line_points = [], cur_point_index = 0,
               first_circle_center = \<lparr>coord_x = 100, coord_y = 100\<rparr>,
               scene_width = 800, scene_height = 600, brush_line_size = 5,
               circles_color = (255, 255, 255), line_color = (155, 10, 20),
               coll_is_draw_circles = False\<rparr>)
   \<and> (\<exists>mid cc'.
        recalc_all [Circle_init False 0 \<lparr>rvalue = 10, thickness = 2\<rparr> 0,
                    Circle_init False 90 \<lparr>rvalue = 5, thickness = 1\<rparr> 10] = Inr mid
      \<and> run_tick \<lparr>circles = [Circle_init False 0 \<lparr>rvalue = 10, thickness = 2\<rparr> 0,
                              Circle_init False 90 \<lparr>rvalue = 5, thickness = 1\<rparr> 10],
                   line_points = [], cur_point_index = 0,
                   first_circle_center = \<lparr>coord_x = 100, coord_y = 100\<rparr>,
                   scene_width = 800, scene_height = 600, brush_line_size = 5,
                   circles_color = (255, 255, 255), line_color = (155, 10, 20),
                   coll_is_draw_circles = False\<rparr> = Inr cc'
      \<and> recalc_center (Circle_init False 90 \<lparr>rvalue = 5, thickness = 1\<rparr> 10) (mid ! 0)
          = Inr (mid ! 1)
      \<and> mid ! 0 = Circle_init False 0 \<lparr>rvalue = 10, thickness = 2\<rparr> 0
      \<and> circles cc' = map update_angle mid
      \<and> center (circles cc' ! 0) = \<lparr>coord_x = 0, coord_y = 0\<rparr>
      \<and> center (circles cc' ! 1) = \<lparr>coord_x = 0, coord_y = 11\<rparr>
      \<and> angle (circles cc' ! 1) = 100)"
proof -
  let ?cs = "[Circle_init False 0 \<lparr>rvalue = 10, thickness = 2\<rparr> 0,
              Circle_init False 90 \<lparr>rvalue = 5, thickness = 1\<rparr> 10]"
  let ?cc = "\<lparr>circles = ?cs,
               line_points = [], cur_point_index = 0,
               first_circle_center = \<lparr>coord_x = 100, coord_y = 100\<rparr>,
               scene_width = 800, scene_height = 600, brush_line_size = 5,
               circles_color = (255, 255, 255), line_color = (155, 10, 20),
               coll_is_draw_circles = False\<rparr>"
  have ok: "list_all circle_ok (circles ?cc)"
    by (simp add: Circle_init_ok)
  from run_tick_order [OF ok]
  obtain mid cc' where r: "recalc_all (circles ?cc) = Inr mid" "run_tick ?cc = Inr cc'"
    and st: "\<forall>i<length (circles ?cc). 1 \<le> i \<longrightarrow>
                recalc_center (circles ?cc ! i) (mid ! (i - 1)) = Inr (mid ! i)"
    and up: "circles cc' = map update_angle mid"
    and ct: "\<forall>i<length (circles ?cc). 1 \<le> i \<longrightarrow>
                center (circles cc' ! i)
                  = new_center (center (circles cc' ! (i - 1))) (circle_r (circles ?cc ! (i - 1)))
                      (angle (circles ?cc ! i))"
    and an: "\<forall>i<length (circles ?cc).
                angle (circles cc' ! i) = angle (update_angle (circles ?cc ! i))"
    and z: "circles ?cc \<noteq> [] \<longrightarrow>
                mid ! 0 = circles ?cc ! 0
              \<and> center (circles cc' ! 0) = center (circles ?cc ! 0)"
    by blast
  from r(1) have r1: "recalc_all ?cs = Inr mid" by simp
  from st [rule_format, of 1]
  have s1: "recalc_center (Circle_init False 90 \<lparr>rvalue = 5, thickness = 1\<rparr> 10) (mid ! 0)
          = Inr (mid ! 1)"
    by simp
  from z have m0: "mid ! 0 = Circle_init False 0 \<lparr>rvalue = 10, thickness = 2\<rparr> 0"
    and c0: "center (circles cc' ! 0) = \<lparr>coord_x = 0, coord_y = 0\<rparr>"
    by (simp_all add: Circle_init_def)
  from ct [rule_format, of 1] c0
  have c1: "center (circles cc' ! 1) = \<lparr>coord_x = 0, coord_y = 11\<rparr>"
    by (simp add: new_center_def Circle_init_def py_int_def)
  from an [rule_format, of 1]
  have a1: "angle (circles cc' ! 1) = 100"
    by (simp add: update_angle_def Circle_init_def py_mod_def)
  from ok r1 r(2) s1 m0 up c0 c1 a1 show ?thesis
    by blast
qed

text \<open>
  Claim C3. Constructing a chain from circles with velocities \<open>v\<^sub>0, \<dots>, v\<^sub>N\<^sub>-\<^sub>1\<close> succeeds,
  and afterwards circle \<open>i\<close> has the velocity \<open>v\<^sub>0 + \<dots> + v\<^sub>i\<close>. Any number of ticks
  after that succeeds and leaves every velocity as it is.
\<close>

theorem velocities_accumulate:
  assumes "cs \<noteq> []" and "list_all circle_ok cs"
  shows "\<exists>cc. CirclesCollection_init cs fcc w h brush ccol lcol idc = Inr cc
          \<and> length (circles cc) = length cs
          \<and> (\<forall>i<length cs. angle_velocity (circles cc ! i) = (\<Sum>j\<le>i. angle_velocity (cs ! j)))
          \<and> (\<forall>n. \<exists>cc'. run_ticks n cc = Inr cc'
                 \<and> map angle_velocity (circles cc') = map angle_velocity (circles cc))"
proof -
  from assms(1) obtain c0 rest where cs: "cs = c0 # rest" by (cases cs) auto
  let ?temp = "set_center (Circle_init idc 0 \<lparr>rvalue = 1, thickness = 1\<rparr> 1) fcc"
  from assms(2) cs have ok0: "circle_ok c0" and okr: "list_all circle_ok rest" by simp_all
  from recalc_center_returns [OF ok0] obtain c0' where c0': "recalc_center c0 ?temp = Inr c0'"
    by blast
  note k = recalc_center_keeps [OF ok0 c0']
  let ?cs1 = "c0' # rest"
  have vel1: "angle_velocity (?cs1 ! j) = angle_velocity (cs ! j)" for j
    using k(2) cs by (cases j) simp_all
  have ok1: "list_all circle_ok ?cs1"
    using k(1) okr by simp
  obtain cc where cc: "CirclesCollection_init cs fcc w h brush ccol lcol idc = Inr cc"
    and ccs: "circles cc = tie_velocity ?cs1"
    using c0' cs by (simp add: CirclesCollection_init_def Let_def)
  note t = tie_velocity_sums [of ?cs1]
  have len: "length (circles cc) = length cs"
    using t ccs cs by simp
  have vel: "angle_velocity (circles cc ! i) = (\<Sum>j\<le>i. angle_velocity (cs ! j))"
    if "i < length cs" for i
    using t that ccs cs vel1 by simp
  have okc: "list_all circle_ok (circles cc)"
    unfolding list_all_length
  proof (intro allI impI)
    fix i assume i: "i < length (circles cc)"
    with len cs have i1: "i < length ?cs1" by simp
    with ok1 have "circle_ok (?cs1 ! i)" unfolding list_all_length by blast
    moreover from t i1 ccs
    have "circles cc ! i = (?cs1 ! i)\<lparr>angle_velocity := (\<Sum>j\<le>i. angle_velocity (?cs1 ! j))\<rparr>"
      by simp
    ultimately show "circle_ok (circles cc ! i)" by (simp add: circle_ok_def)
  qed
  have "\<exists>cc'. run_ticks n cc = Inr cc'
          \<and> map angle_velocity (circles cc') = map angle_velocity (circles cc)" for n
    using run_ticks_keeps [OF okc, of n] by blast
  with cc len vel show ?thesis by blast
qed

theorem velocities_accumulate_witness:
  "[Circle_init False 90 \<lparr>rvalue = 10, thickness = 1\<rparr> 5,
    Circle_init False 90 \<lparr>rvalue = 10, thickness = 1\<rparr> (-5),
    Circle_init False 90 \<lparr>rvalue = 10, thickness = 1\<rparr> 2] \<noteq> []
   \<and> list_all circle_ok
       [Circle_init False 90 \<lparr>rvalue = 10, thickness = 1\<rparr> 5,
        Circle_init False 90 \<lparr>rvalue = 10, thickness = 1\<rparr> (-5),
        Circle_init False 90 \<lparr>rvalue = 10, thickness = 1\<rparr> 2]
   \<and> (\<exists>cc. CirclesCollection_init
             [Circle_init False 90 \<lparr>rvalue = 10, thickness = 1\<rparr> 5,
              Circle_init False 90 \<lparr>rvalue = 10, thickness = 1\<rparr> (-5),
              Circle_init False 90 \<lparr>rvalue = 10, thickness = 1\<rparr> 2]
             \<lparr>coord_x = 400, coord_y = 300\<rparr> 800 600 5 (255, 255, 255) (155, 10, 20) False
           = Inr cc
         \<and> angle_velocity (circles cc ! 0) = 5
         \<and> angle_velocity (circles cc ! 1) = 0
         \<and> angle_velocity (circles cc ! 2) = 2
         \<and> (\<exists>cc'. run_ticks 3 cc = Inr cc'
               \<and> map angle_velocity (circles cc') = map angle_velocity (circles cc)))"
proof -
  let ?cs = "[Circle_init False 90 \<lparr>rvalue = 10, thickness = 1\<rparr> 5,
    Circle_init False 90 \<lparr>rvalue = 10, thickness = 1\<rparr> (-5),
    Circle_init False 90 \<lparr>rvalue = 10, thickness = 1\<rparr> 2]"
  have ne: "?cs \<noteq> []" by simp
  have ok: "list_all circle_ok ?cs" by (simp add: Circle_init_ok)
  from velocities_accumulate [OF ne ok, of "\<lparr>coord_x = 400, coord_y = 300\<rparr>" 800 600 5
      "(255, 255, 255)" "(155, 10, 20)" False]
  obtain cc where cc: "CirclesCollection_init ?cs \<lparr>coord_x = 400, coord_y = 300\<rparr> 800 600 5
        (255, 255, 255) (155, 10, 20) False = Inr cc"
    and vel: "\<forall>i<length ?cs. angle_velocity (circles cc ! i) = (\<Sum>j\<le>i. angle_velocity (?cs ! j))"
    and ticks: "\<forall>n. \<exists>cc'. run_ticks n cc = Inr cc'
                 \<and> map angle_velocity (circles cc') = map angle_velocity (circles cc)"
    by blast
  have v0: "angle_velocity (circles cc ! 0) = 5"
    using vel [rule_format, of 0] by (simp add: Circle_init_def)
  have v1: "angle_velocity (circles cc ! 1) = 0"
    using vel [rule_format, of 1] by (simp add: Circle_init_def)
  have v2: "angle_velocity (circles cc ! 2) = 2"
    using vel [rule_format, of 2] by (simp add: Circle_init_def eval_nat_numeral)
  from ne ok cc v0 v1 v2 ticks [rule_format, of 3] show ?thesis
    by blast
qed

text \<open>
  Claim C4, amended. For a circle constructed with \<open>is_draw_circles = True\<close>, the mask
  \<open>inner_pixels\<close> is exactly the set of points \<open>(- r_outer + k, - r_outer + j)\<close>, with
  \<open>j\<close> and \<open>k\<close> natural numbers, that lie in the bounding square of side \<open>2 * r_outer\<close>
  around the origin and satisfy \<open>r_inner\<^sup>2 < dx\<^sup>2 + dy\<^sup>2 \<le> r_outer\<^sup>2\<close>. When
  \<open>r_outer\<close> is an integer these are the points of the square with integer coordinates
  in the band. No point outside the band is in the mask.
\<close>

theorem mask_is_offset_grid_band:
  "set (inner_pixels (Circle_init True a r v))
     = offset_grid_mask (rvalue r) (rvalue r + thickness r)
   \<and> (rvalue r + thickness r \<in> \<int> \<longrightarrow>
        set (inner_pixels (Circle_init True a r v))
          = ring_mask_spec (rvalue r) (rvalue r + thickness r))
   \<and> (\<forall>p \<in> set (inner_pixels (Circle_init True a r v)).
        (rvalue r)\<^sup>2 < (coord_x p)\<^sup>2 + (coord_y p)\<^sup>2
        \<and> (coord_x p)\<^sup>2 + (coord_y p)\<^sup>2 \<le> (rvalue r + thickness r)\<^sup>2)"
proof -
  have m: "set (inner_pixels (Circle_init True a r v))
             = offset_grid_mask (rvalue r) (rvalue r + thickness r)"
  proof -
    have "inner_pixels (Circle_init True a r v) = calc_pixels \<lparr>coord_x = 0, coord_y = 0\<rparr> r"
      by (simp add: Circle_init_def Let_def)
    then show ?thesis
      by (simp only: set_calc_pixels) (rule grid_points_origin; simp)
  qed
  moreover have "set (inner_pixels (Circle_init True a r v))
          = ring_mask_spec (rvalue r) (rvalue r + thickness r)"
    if "rvalue r + thickness r \<in> \<int>"
    using m offset_grid_mask_Ints [OF that] by simp
  moreover have "\<forall>p \<in> set (inner_pixels (Circle_init True a r v)).
        (rvalue r)\<^sup>2 < (coord_x p)\<^sup>2 + (coord_y p)\<^sup>2
        \<and> (coord_x p)\<^sup>2 + (coord_y p)\<^sup>2 \<le> (rvalue r + thickness r)\<^sup>2"
    unfolding m by (simp add: offset_grid_mask_def)
  ultimately show ?thesis by blast
qed

theorem mask_is_offset_grid_band_witness:
  "(0 + 1 :: real) \<in> \<int>
   \<and> inner_pixels (Circle_init True 0 \<lparr>rvalue = 0, thickness = 1\<rparr> 0)
       = [\<lparr>coord_x = 0, coord_y = -1\<rparr>, \<lparr>coord_x = -1, coord_y = 0\<rparr>,
          \<lparr>coord_x = 1, coord_y = 0\<rparr>, \<lparr>coord_x = 0, coord_y = 1\<rparr>]
   \<and> set (inner_pixels (Circle_init True 0 \<lparr>rvalue = 0, thickness = 1\<rparr> 0))
       = ring_mask_spec 0 (0 + 1)
   \<and> list_all (\<lambda>p. 0\<^sup>2 < (coord_x p)\<^sup>2 + (coord_y p)\<^sup>2
                    \<and> (coord_x p)\<^sup>2 + (coord_y p)\<^sup>2 \<le> (0 + 1 :: real)\<^sup>2)
        (inner_pixels (Circle_init True 0 \<lparr>rvalue = 0, thickness = 1\<rparr> 0))"
proof -
  have i: "(0 + 1 :: real) \<in> \<int>" by simp
  have e: "inner_pixels (Circle_init True 0 \<lparr>rvalue = 0, thickness = 1\<rparr> 0)
       = [\<lparr>coord_x = 0, coord_y = -1\<rparr>, \<lparr>coord_x = -1, coord_y = 0\<rparr>,
          \<lparr>coord_x = 1, coord_y = 0\<rparr>, \<lparr>coord_x = 0, coord_y = 1\<rparr>]"
    by (simp add: Circle_init_def Let_def mask_0_1)
  note t = mask_is_offset_grid_band [of 0 "\<lparr>rvalue = 0, thickness = 1\<rparr>" 0]
  from t have "rvalue \<lparr>rvalue = 0, thickness = 1\<rparr> + thickness \<lparr>rvalue = 0, thickness = 1\<rparr> \<in> \<int>
      \<longrightarrow> set (inner_pixels (Circle_init True 0 \<lparr>rvalue = 0, thickness = 1\<rparr> 0))
          = ring_mask_spec (rvalue \<lparr>rvalue = 0, thickness = 1\<rparr>)
              (rvalue \<lparr>rvalue = 0, thickness = 1\<rparr> + thickness \<lparr>rvalue = 0, thickness = 1\<rparr>)"
    by blast
  then have s: "set (inner_pixels (Circle_init True 0 \<lparr>rvalue = 0, thickness = 1\<rparr> 0))
       = ring_mask_spec 0 (0 + 1)"
    by simp
  from t have "list_all (\<lambda>p. 0\<^sup>2 < (coord_x p)\<^sup>2 + (coord_y p)\<^sup>2
                    \<and> (coord_x p)\<^sup>2 + (coord_y p)\<^sup>2 \<le> (0 + 1 :: real)\<^sup>2)
        (inner_pixels (Circle_init True 0 \<lparr>rvalue = 0, thickness = 1\<rparr> 0))"
    unfolding list_all_iff by simp
  with i e s show ?thesis by blast
qed

text \<open>
  The claim C4 as stated fails for a ring whose outer radius is not an integer: for the
  ring \<open>(0, 3/2)\<close> the scan starts at \<open>- 3/2\<close>, so the mask holds the four points
  \<open>(\<plusminus>1/2, \<plusminus>1/2)\<close> and not the point \<open>(1, 0)\<close>, which has integer coordinates and is in
  the band.
\<close>

theorem mask_integer_points_counterexample:
  "inner_pixels (Circle_init True 0 \<lparr>rvalue = 0, thickness = 3/2\<rparr> 0)
     = [\<lparr>coord_x = -1/2, coord_y = -1/2\<rparr>, \<lparr>coord_x = 1/2, coord_y = -1/2\<rparr>,
        \<lparr>coord_x = -1/2, coord_y = 1/2\<rparr>, \<lparr>coord_x = 1/2, coord_y = 1/2\<rparr>]
   \<and> \<lparr>coord_x = 1, coord_y = 0\<rparr> \<in> ring_mask_spec 0 (0 + 3/2)
   \<and> \<lparr>coord_x = 1, coord_y = 0\<rparr>
        \<notin> set (inner_pixels (Circle_init True 0 \<lparr>rvalue = 0, thickness = 3/2\<rparr> 0))
   \<and> set (inner_pixels (Circle_init True 0 \<lparr>rvalue = 0, thickness = 3/2\<rparr> 0))
        \<noteq> ring_mask_spec 0 (0 + 3/2)"
proof -
  have e: "inner_pixels (Circle_init True 0 \<lparr>rvalue = 0, thickness = 3/2\<rparr> 0)
     = [\<lparr>coord_x = -1/2, coord_y = -1/2\<rparr>, \<lparr>coord_x = 1/2, coord_y = -1/2\<rparr>,
        \<lparr>coord_x = -1/2, coord_y = 1/2\<rparr>, \<lparr>coord_x = 1/2, coord_y = 1/2\<rparr>]"
    by (simp add: Circle_init_def Let_def mask_0_3half)
  have i: "\<lparr>coord_x = 1, coord_y = 0\<rparr> \<in> ring_mask_spec 0 (0 + 3/2)"
    by (simp add: ring_mask_spec_def power2_eq_square)
  have n: "\<lparr>coord_x = 1, coord_y = 0\<rparr>
        \<notin> set (inner_pixels (Circle_init True 0 \<lparr>rvalue = 0, thickness = 3/2\<rparr> 0))"
    unfolding e by simp
  from i n have "set (inner_pixels (Circle_init True 0 \<lparr>rvalue = 0, thickness = 3/2\<rparr> 0))
        \<noteq> ring_mask_spec 0 (0 + 3/2)"
    by blast
  with e i n show ?thesis by blast
qed

text \<open>
  Claim C5. For a circle with \<open>is_draw_circles = True\<close>, \<open>recalc_center\<close> returns, and
  afterwards \<open>pixels\<close> has the length of \<open>inner_pixels\<close> and \<open>pixels[i]\<close> is
  \<open>inner_pixels[i]\<close> moved by the new center, for every index \<open>i\<close>. No method changes
  \<open>inner_pixels\<close>.
\<close>

theorem recalc_center_world_pixels:
  assumes "circle_ok c" and "is_draw_circles c"
  shows "\<exists>c'. recalc_center c parent = Inr c'
          \<and> inner_pixels c' = inner_pixels c
          \<and> length (pixels c') = length (inner_pixels c')
          \<and> (\<forall>i<length (inner_pixels c').
                coord_x (pixels c' ! i) = coord_x (inner_pixels c' ! i) + coord_x (center c')
              \<and> coord_y (pixels c' ! i) = coord_y (inner_pixels c' ! i) + coord_y (center c'))
          \<and> inner_pixels (update_angle c) = inner_pixels c
          \<and> inner_pixels (add_angle_velocity c other) = inner_pixels c
          \<and> inner_pixels (set_center c q) = inner_pixels c"
  using assms
  by (simp add: recalc_center_ok move_pixel_def update_angle_def add_angle_velocity_def
      set_center_def)

theorem recalc_center_world_pixels_witness:
  "circle_ok (Circle_init True 0 \<lparr>rvalue = 0, thickness = 1\<rparr> 0)
   \<and> is_draw_circles (Circle_init True 0 \<lparr>rvalue = 0, thickness = 1\<rparr> 0)
   \<and> (\<exists>c'. recalc_center (Circle_init True 0 \<lparr>rvalue = 0, thickness = 1\<rparr> 0)
              (set_center (Circle_init False 0 \<lparr>rvalue = 1, thickness = 1\<rparr> 1)
                 \<lparr>coord_x = 100, coord_y = 100\<rparr>) = Inr c'
          \<and> center c' = \<lparr>coord_x = 101, coord_y = 100\<rparr>
          \<and> inner_pixels c' = [\<lparr>coord_x = 0, coord_y = -1\<rparr>, \<lparr>coord_x = -1, coord_y = 0\<rparr>,
                                \<lparr>coord_x = 1, coord_y = 0\<rparr>, \<lparr>coord_x = 0, coord_y = 1\<rparr>]
          \<and> length (pixels c') = 4
          \<and> coord_x (pixels c' ! 1) = 100 \<and> coord_y (pixels c' ! 1) = 100
          \<and> coord_x (pixels c' ! 3) = 101 \<and> coord_y (pixels c' ! 3) = 101)"
proof -
  let ?c = "Circle_init True 0 \<lparr>rvalue = 0, thickness = 1\<rparr> 0"
  let ?p = "set_center (Circle_init False 0 \<lparr>rvalue = 1, thickness = 1\<rparr> 1)
                 \<lparr>coord_x = 100, coord_y = 100\<rparr>"
  have ok: "circle_ok ?c" by (rule Circle_init_ok)
  have dr: "is_draw_circles ?c" by (simp add: Circle_init_def Let_def)
  have ip: "inner_pixels ?c = [\<lparr>coord_x = 0, coord_y = -1\<rparr>, \<lparr>coord_x = -1, coord_y = 0\<rparr>,
                                \<lparr>coord_x = 1, coord_y = 0\<rparr>, \<lparr>coord_x = 0, coord_y = 1\<rparr>]"
    by (simp add: Circle_init_def Let_def mask_0_1)
  from recalc_center_world_pixels [OF ok dr, of ?p]
  obtain c' where c': "recalc_center ?c ?p = Inr c'"
    and same: "inner_pixels c' = inner_pixels ?c"
    and len: "length (pixels c') = length (inner_pixels c')"
    and px: "\<forall>i<length (inner_pixels c').
                coord_x (pixels c' ! i) = coord_x (inner_pixels c' ! i) + coord_x (center c')
              \<and> coord_y (pixels c' ! i) = coord_y (inner_pixels c' ! i) + coord_y (center c')"
    by blast
  have ctr: "center c' = \<lparr>coord_x = 101, coord_y = 100\<rparr>"
    using c' unfolding recalc_center_ok [OF ok]
    by (auto simp: new_center_def set_center_def Circle_init_def Let_def py_int_def)
  have l4: "length (pixels c') = 4"
    using len same ip by simp
  have p1: "coord_x (pixels c' ! 1) = 100 \<and> coord_y (pixels c' ! 1) = 100"
    using px [rule_format, of 1] same ip ctr by simp
  have p3: "coord_x (pixels c' ! 3) = 101 \<and> coord_y (pixels c' ! 3) = 101"
    using px [rule_format, of 3] same ip ctr by (simp add: eval_nat_numeral)
  from ok dr c' ctr same ip l4 p1 p3 show ?thesis
    by (intro conjI exI [of _ c']) simp_all
qed

text \<open>
  Claim C6, amended. For a circle with velocity 0, one \<open>update_angle\<close> leaves the angle
  equal to \<open>\<bar>angle\<bar> mod 360\<close>, which is \<open>angle mod 360\<close> when the angle was not negative,
  and every later \<open>update_angle\<close> leaves the circle as it is.
\<close>

theorem update_angle_zero_velocity_abs:
  assumes "angle_velocity c = 0"
  shows "angle (update_angle c) = py_mod \<bar>angle c\<bar> 360
         \<and> (0 \<le> angle c \<longrightarrow> angle (update_angle c) = py_mod (angle c) 360)
         \<and> (\<forall>n. (update_angle ^^ Suc n) c = update_angle c)"
  using assms update_angle_fixed [OF assms] by (simp add: zero_velocity_update)

theorem update_angle_zero_velocity_abs_witness:
  "angle_velocity (Circle_init False 400 \<lparr>rvalue = 5, thickness = 1\<rparr> 0) = 0
   \<and> (0::real) \<le> angle (Circle_init False 400 \<lparr>rvalue = 5, thickness = 1\<rparr> 0)
   \<and> angle (update_angle (Circle_init False 400 \<lparr>rvalue = 5, thickness = 1\<rparr> 0)) = 40
   \<and> (update_angle ^^ Suc 3) (Circle_init False 400 \<lparr>rvalue = 5, thickness = 1\<rparr> 0)
       = update_angle (Circle_init False 400 \<lparr>rvalue = 5, thickness = 1\<rparr> 0)"
proof -
  let ?c = "Circle_init False 400 \<lparr>rvalue = 5, thickness = 1\<rparr> 0"
  have v: "angle_velocity ?c = 0"
    by (simp add: Circle_init_def)
  note t = update_angle_zero_velocity_abs [OF v]
  from t have a: "angle (update_angle ?c) = py_mod \<bar>angle ?c\<bar> 360"
    by blast
  from t have f: "(update_angle ^^ Suc 3) ?c = update_angle ?c"
    by blast
  show ?thesis
  proof (intro conjI)
    show "angle_velocity ?c = 0" by (rule v)
    show "0 \<le> angle ?c" by (simp add: Circle_init_def)
    show "angle (update_angle ?c) = 40"
      using a by (simp add: Circle_init_def py_mod_def)
    show "(update_angle ^^ Suc 3) ?c = update_angle ?c" by (rule f)
  qed
qed

text \<open>
  The claim C6 as stated fails for a negative angle: with velocity 0 the angle \<open>-30\<close>
  becomes \<open>30\<close>. The sign is lost, and \<open>30\<close> is neither the sign-preserving remainder
  \<open>-30\<close> nor the floored remainder \<open>330\<close>.
\<close>

theorem update_angle_sign_counterexample:
  "angle_velocity (Circle_init False (-30) \<lparr>rvalue = 5, thickness = 1\<rparr> 0) = 0
   \<and> angle (Circle_init False (-30) \<lparr>rvalue = 5, thickness = 1\<rparr> 0) = -30
   \<and> angle (update_angle (Circle_init False (-30) \<lparr>rvalue = 5, thickness = 1\<rparr> 0)) = 30
   \<and> angle (update_angle (Circle_init False (-30) \<lparr>rvalue = 5, thickness = 1\<rparr> 0))
       \<noteq> sign_preserving_mod (angle (Circle_init False (-30) \<lparr>rvalue = 5, thickness = 1\<rparr> 0)) 360
   \<and> angle (update_angle (Circle_init False (-30) \<lparr>rvalue = 5, thickness = 1\<rparr> 0))
       \<noteq> py_mod (angle (Circle_init False (-30) \<lparr>rvalue = 5, thickness = 1\<rparr> 0)) 360"
  by (simp add: Circle_init_def update_angle_def py_mod_def sign_preserving_mod_def)

text \<open>
  Claim C7. The chain of two circles with anchor \<open>(100, 100)\<close>, circle 0 with ring
  \<open>(10, 2)\<close>, angle 0 and velocity 0, circle 1 with ring \<open>(5, 1)\<close>, angle 0 and velocity
  10: after construction the center of circle 0 is \<open>(101, 100)\<close>; after one tick the angle
  of circle 1 is 10 and its center is \<open>(112, 100)\<close>. This holds whether or not the circles
  are drawn.
\<close>

theorem two_rotor_scenario:
  "\<exists>cc cc'.
     CirclesCollection_init
       [Circle_init d0 0 \<lparr>rvalue = 10, thickness = 2\<rparr> 0,
        Circle_init d1 0 \<lparr>rvalue = 5, thickness = 1\<rparr> 10]
       \<lparr>coord_x = 100, coord_y = 100\<rparr> w h brush ccol lcol idc = Inr cc
     \<and> length (circles cc) = 2
     \<and> center (circles cc ! 0) = \<lparr>coord_x = 101, coord_y = 100\<rparr>
     \<and> run_tick cc = Inr cc'
     \<and> length (circles cc') = 2
     \<and> angle (circles cc' ! 1) = 10
     \<and> center (circles cc' ! 1) = \<lparr>coord_x = 112, coord_y = 100\<rparr>"
proof -
  let ?r0 = "Circle_init d0 0 \<lparr>rvalue = 10, thickness = 2\<rparr> 0"
  let ?r1 = "Circle_init d1 0 \<lparr>rvalue = 5, thickness = 1\<rparr> 10"
  let ?anchor = "\<lparr>coord_x = 100, coord_y = 100\<rparr>"
  let ?temp = "set_center (Circle_init idc 0 \<lparr>rvalue = 1, thickness = 1\<rparr> 1) ?anchor"
  define a where "a = ?r0\<lparr>center := \<lparr>coord_x = 101, coord_y = 100\<rparr>,
      pixels := (if d0 then map (move_pixel \<lparr>coord_x = 101, coord_y = 100\<rparr>) (inner_pixels ?r0)
                 else pixels ?r0)\<rparr>"
  have nc: "new_center (center ?temp) (circle_r ?temp) (angle ?r0) = \<lparr>coord_x = 101, coord_y = 100\<rparr>"
    by (simp add: new_center_def set_center_def Circle_init_def Let_def py_int_def)
  have d0: "is_draw_circles ?r0 = d0"
    by (simp add: Circle_init_def Let_def)
  have s1: "recalc_center ?r0 ?temp = Inr a"
    unfolding recalc_center_ok [OF Circle_init_ok] nc a_def d0 ..
  have tie: "tie_velocity [a, ?r1] = [a, ?r1]"
    by (simp add: tie_velocity_def add_angle_velocity_def a_def Circle_init_def Let_def)
  define cc where "cc = \<lparr>circles = [a, ?r1],
      line_points = [\<lparr>coord_x = -10000, coord_y = -10000\<rparr>,
                     \<lparr>coord_x = -10000, coord_y = -10000\<rparr>],
      cur_point_index = 0, first_circle_center = ?anchor,
      scene_width = w, scene_height = h, brush_line_size = brush,
      circles_color = ccol, line_color = lcol, coll_is_draw_circles = idc\<rparr>"
  have init: "CirclesCollection_init [?r0, ?r1] ?anchor w h brush ccol lcol idc = Inr cc"
    by (simp add: CirclesCollection_init_def Let_def s1 tie cc_def)
  define b where "b = ?r1\<lparr>center := \<lparr>coord_x = 112, coord_y = 100\<rparr>,
      pixels := (if d1 then map (move_pixel \<lparr>coord_x = 112, coord_y = 100\<rparr>) (inner_pixels ?r1)
                 else pixels ?r1)\<rparr>"
  have nc1: "new_center (center a) (circle_r a) (angle ?r1) = \<lparr>coord_x = 112, coord_y = 100\<rparr>"
    by (simp add: new_center_def a_def Circle_init_def Let_def py_int_def)
  have d1: "is_draw_circles ?r1 = d1"
    by (simp add: Circle_init_def Let_def)
  have s2: "recalc_center ?r1 a = Inr b"
    unfolding recalc_center_ok [OF Circle_init_ok] nc1 b_def d1 ..
  have ra: "recalc_all [a, ?r1] = Inr [a, b]"
    by (simp add: recalc_all_def recalc_step_def s2)
  have tick: "run_tick cc = Inr (cc\<lparr>circles := [update_angle a, update_angle b]\<rparr>)"
    by (simp add: run_tick_def cc_def ra)
  have ang: "angle (update_angle b) = 10"
    by (simp add: update_angle_def b_def Circle_init_def Let_def py_mod_def)
  have ctr: "center (update_angle b) = \<lparr>coord_x = 112, coord_y = 100\<rparr>"
    by (simp add: update_angle_def b_def)
  have c0: "center a = \<lparr>coord_x = 101, coord_y = 100\<rparr>"
    by (simp add: a_def)
  show ?thesis
    using init tick ang ctr c0 by (simp add: cc_def)
qed

text \<open>
  Claim C8. Constructing a chain from an empty list of circles fails: \<open>circles[0]\<close>
  raises \<open>IndexError\<close> in the constructor, and no collection is built.
\<close>

theorem init_empty_fails:
  "CirclesCollection_init [] fcc w h brush ccol lcol idc = Inl IndexError"
  by (simp add: CirclesCollection_init_def)

text \<open>
  Claim C9, amended. The constructor of \<open>Circle\<close> checks nothing: for every ring, also
  one with a negative radius or thickness, it returns a circle whose ring holds the values
  as given, and a chain of that circle is built without error.
\<close>

theorem Circle_init_accepts_any_ring:
  "circle_r (Circle_init idc a r v) = r
   \<and> (\<exists>cc. CirclesCollection_init [Circle_init idc a r v] fcc w h brush ccol lcol idc' = Inr cc
           \<and> map circle_r (circles cc) = [r])"
  by (simp add: CirclesCollection_init_def recalc_center_ok Circle_init_ok tie_velocity_single)
    (simp add: Circle_init_def Let_def)

text \<open>
  The claim C9 as stated fails: the ring \<open>(-5, -1)\<close> is accepted by the constructor of
  \<open>Circle\<close> and by the constructor of the chain.
\<close>

theorem negative_ring_counterexample:
  "Circle_init False 0 \<lparr>rvalue = -5, thickness = -1\<rparr> 0
     = \<lparr>is_draw_circles = False, center = \<lparr>coord_x = 0, coord_y = 0\<rparr>, angle = 0,
        angle_velocity = 0, circle_r = \<lparr>rvalue = -5, thickness = -1\<rparr>,
        inner_pixels = [], pixels = []\<rparr>
   \<and> CirclesCollection_init [Circle_init False 0 \<lparr>rvalue = -5, thickness = -1\<rparr> 0]
        \<lparr>coord_x = 100, coord_y = 100\<rparr> 800 600 5 (255, 255, 255) (155, 10, 20) False
       = Inr \<lparr>circles = [\<lparr>is_draw_circles = False, center = \<lparr>coord_x = 101, coord_y = 100\<rparr>,
                          angle = 0, angle_velocity = 0,
                          circle_r = \<lparr>rvalue = -5, thickness = -1\<rparr>,
                          inner_pixels = [], pixels = []\<rparr>],
              line_points = [\<lparr>coord_x = -10000, coord_y = -10000\<rparr>,
                             \<lparr>coord_x = -10000, coord_y = -10000\<rparr>],
              cur_point_index = 0,
              first_circle_center = \<lparr>coord_x = 100, coord_y = 100\<rparr>,
              scene_width = 800, scene_height = 600, brush_line_size = 5,
              circles_color = (255, 255, 255), line_color = (155, 10, 20),
              coll_is_draw_circles = False\<rparr>"
  by (simp add: CirclesCollection_init_def recalc_center_def Circle_init_def Let_def
      set_center_def tie_velocity_def py_int_def)

text \<open>
  Claim C10, amended. After every \<open>update_angle\<close> on floats the angle is in
  \<open>[0, 360]\<close>, whatever the angle and the velocity were before: it is never negative,
  and rounding can make it exactly 360. So every update after the first takes the branch
  \<open>angle \<ge> 0\<close> of the sign choice and computes \<open>(angle + angle_velocity) % 360\<close>.
\<close>

theorem update_angle_float_in_closed_range:
  "0 \<le> angle ((update_angle_float ^^ Suc n) c)
   \<and> angle ((update_angle_float ^^ Suc n) c) \<le> 360
   \<and> angle ((update_angle_float ^^ Suc (Suc n)) c)
       = float_rem (double_round (1 * double_round
           (angle ((update_angle_float ^^ Suc n) c) + angle_velocity c))) 360"
proof -
  let ?d = "(update_angle_float ^^ n) c"
  have r: "0 \<le> angle (update_angle_float ?d) \<and> angle (update_angle_float ?d) \<le> 360"
    by (rule update_angle_float_range)
  have "angle (update_angle_float (update_angle_float ?d))
          = float_rem (double_round (1 * double_round
              (angle (update_angle_float ?d) + angle_velocity (update_angle_float ?d)))) 360"
    using r by (simp add: update_angle_float_def [of "update_angle_float ?d"])
  then show ?thesis
    using r by simp
qed

text \<open>
  The claim C10 as stated fails on floats: from angle 0 with velocity \<open>- 2\<^sup>-\<^sup>7\<^sup>0\<close> the sum
  is \<open>- 2\<^sup>-\<^sup>7\<^sup>0\<close>, its \<open>fmod\<close> by 360 is the same, and adding 360 rounds to exactly 360,
  which is not below 360.
\<close>

theorem update_angle_float_reaches_360_counterexample:
  "angle (Circle_init False 0 \<lparr>rvalue = 5, thickness = 1\<rparr> (- (1 / 2 ^ 70))) = 0
   \<and> angle (update_angle_float
        (Circle_init False 0 \<lparr>rvalue = 5, thickness = 1\<rparr> (- (1 / 2 ^ 70)))) = 360
   \<and> \<not> angle (update_angle_float
        (Circle_init False 0 \<lparr>rvalue = 5, thickness = 1\<rparr> (- (1 / 2 ^ 70)))) < 360"
proof -
  let ?c = "Circle_init False 0 \<lparr>rvalue = 5, thickness = 1\<rparr> (- (1 / 2 ^ 70))"
  have a: "angle ?c = 0" and v: "angle_velocity ?c = - (1 / 2 ^ 70)"
    by (simp_all add: Circle_init_def)
  have "angle (update_angle_float ?c)
          = float_rem (double_round (1 * double_round (0 + - (1 / 2 ^ 70)))) 360"
    unfolding update_angle_float_def a v by simp
  also have "double_round (0 + - (1 / 2 ^ 70)) = - (1 / 2 ^ 70)"
    using round_small by simp
  also have "double_round (1 * - (1 / 2 ^ 70)) = - (1 / 2 ^ 70)"
    using round_small by simp
  finally have "angle (update_angle_float ?c) = 360"
    by (simp only: float_rem_small)
  with a show ?thesis by simp
qed

end
